theory Spec2Isabelle
  imports Complex_Main "HOL-Library.AList"
begin

section \<open>The player ship of PyFighter (models/player.py)\<close>

text \<open>
  The class \<open>Player\<close> extends \<open>Actor\<close>. Its methods mutate the player object, the
  sprite objects they are handed (lasers, missiles, enemies), image surfaces, and they call
  sound handles. The embedding makes this explicit: a \<open>world\<close> holds the player's
  attributes, a store of sprite objects addressed by reference, a store of image surfaces
  addressed by reference, and the trace of calls made to the outside (sounds played, removal
  hooks invoked). Python exceptions are values of \<open>py_error\<close>.
\<close>

subsection \<open>Values\<close>

datatype py_error = ZeroDivisionError | IndexError | KeyError

type_synonym ref = nat
  \<comment> \<open>identity of a sprite object (Actor or Missile)\<close>

type_synonym surface_ref = nat
  \<comment> \<open>identity of a pygame Surface\<close>

datatype mask = Mask nat
  \<comment> \<open>a collision mask, an opaque handle\<close>

datatype sound = Sound nat
  \<comment> \<open>a pygame Sound, an opaque handle\<close>

type_synonym pixel = "nat \<times> nat \<times> nat \<times> nat"
  \<comment> \<open>red, green, blue, alpha; each channel in 0..255\<close>

type_synonym surface = "pixel list"

type_synonym 'c vector2 = "'c \<times> 'c"
  \<comment> \<open>pygame Vector2; the coordinate type \<open>'c\<close> is left open, only its subtraction is used\<close>

datatype event = Play sound | Kill ref
  \<comment> \<open>\<open>Sound.play()\<close> and the removal hook \<open>obj.kill()\<close>\<close>

subsection \<open>Actor, Player and the world\<close>

text \<open>
  Modelled from the spec: the base class \<open>Actor\<close> (models/actor.py is not part of the
  sources). It holds position, hit points, speed, image, collision mask and draw offset, in
  the order of its constructor's arguments as \<open>Player.__init__\<close> and \<open>Player.shoot\<close>
  pass them. The draw offset is a dict from axis name to a length.
\<close>

record 'c actor =
  pos :: "'c vector2"
  hp :: int
  speed :: int
  img :: surface_ref
  mask :: mask
  offset :: "string \<rightharpoonup> 'c"

text \<open>The attributes \<open>Player.__init__\<close> adds, in the order it assigns them.\<close>

record 'c player = "'c actor" +
  cooldown_threshold :: int
  cooldown_counter :: int
  laser_dmg :: int
  missile_count :: int
  score :: int
  laser_img :: surface_ref
  lasers_fired :: "ref list"
  laser_mask :: mask
  missile_img :: surface_ref
  missile_mask :: mask
  missiles_fired :: "ref list"
  missile_cooldown_threshold :: int
  missile_cooldown_counter :: int
  missile_sfx :: sound
  laser_sfx :: sound
  laser_hit_sfx :: sound
  explosion_sfx :: sound
  idle_animation_frames :: "surface_ref list"
  current_frame :: int
  animation_counter :: int
  glow_effect_duration :: int
  glow_effect_end_time :: int
  original_images :: "(int \<times> surface_ref) list"

text \<open>
  \<open>lasers_fired\<close> and \<open>missiles_fired\<close> are pygame sprite groups: insertion-ordered
  collections without duplicates. \<open>original_images\<close> is a dict, kept as an association
  list in insertion order.

  A Missile is an Actor with a lock descriptor and an angle; \<open>missile_attrs\<close> holds these
  two for the references that are Missiles, \<open>actors\<close> the Actor attributes of every sprite.
  Objects are never freed: \<open>next_ref\<close> and \<open>next_surface\<close> are the next unused
  references.
\<close>

record ('c, 'l) world =
  player :: "'c player"
  actors :: "ref \<Rightarrow> 'c actor"
  missile_attrs :: "ref \<rightharpoonup> 'l \<times> real"
  next_ref :: ref
  surfaces :: "surface_ref \<Rightarrow> surface"
  next_surface :: surface_ref
  trace :: "event list"

type_synonym 'c shape = "'c vector2 \<times> surface_ref \<times> mask"

text \<open>
  What \<open>player.py\<close> imports and this repository's sources do not contain: the module
  \<open>constants\<close> (\<open>IMG_OFFSETS\<close>, \<open>BASE_LASER_SPEED\<close>, \<open>BASE_CANNON_COOLDOWN\<close>,
  \<open>BASE_LASER_DMG\<close>), the collision test \<open>Actor.resolve_collision\<close> and the target
  lock \<open>Missile.lock\<close>. They are parameters of the model.

  Modelled from the spec: \<open>Actor.resolve_collision\<close> is a pixel-mask collision test that
  takes the position, image and mask of two actors and returns whether they overlap;
  \<open>Missile.lock\<close> takes a position and the candidate list and returns a lock descriptor.
\<close>

record ('c, 'l) env =
  IMG_OFFSETS :: "string \<rightharpoonup> (string \<rightharpoonup> 'c)"
  BASE_LASER_SPEED :: int
  BASE_CANNON_COOLDOWN :: int
  BASE_LASER_DMG :: int
  resolve_collision :: "'c shape \<Rightarrow> 'c shape \<Rightarrow> bool"
  Missile_lock :: "'c vector2 \<Rightarrow> ref option list \<Rightarrow> (ref \<Rightarrow> 'c actor) \<Rightarrow> 'l"

definition shape :: "('c, 'z) actor_scheme \<Rightarrow> 'c shape" where
  "shape a = (pos a, img a, mask a)"

subsection \<open>The collaborators' primitives\<close>

text \<open>\<open>Sound.play()\<close>: fire and forget; the call is recorded.\<close>

definition play :: "sound \<Rightarrow> ('c, 'l) world \<Rightarrow> ('c, 'l) world" where
  "play s w = w\<lparr>trace := trace w @ [Play s]\<rparr>"

text \<open>
  Modelled from the spec: \<open>obj.kill()\<close>, the removal hook of a candidate. The call is
  recorded; what the hook does to collections outside the player is not part of the model.
\<close>

definition kill :: "ref \<Rightarrow> ('c, 'l) world \<Rightarrow> ('c, 'l) world" where
  "kill r w = w\<lparr>trace := trace w @ [Kill r]\<rparr>"

text \<open>
  \<open>Group.add\<close> and \<open>Group.remove\<close> of pygame: adding a member again and removing a
  non-member do nothing.
\<close>

definition group_add :: "ref \<Rightarrow> ref list \<Rightarrow> ref list" where
  "group_add r g = (if r \<in> set g then g else g @ [r])"

definition group_remove :: "ref \<Rightarrow> ref list \<Rightarrow> ref list" where
  "group_remove r g = filter (\<lambda>x. x \<noteq> r) g"

text \<open>
  \<open>Surface.copy()\<close> allocates a new surface with the same pixels.
  \<open>Surface.fill(color, special_flags=BLEND_ADD)\<close> adds the colour to the red, green and
  blue channel of every pixel, saturating at 255, and leaves alpha alone.
  \<open>pygame.Color("yellow")\<close> is (255, 255, 0, 255).
\<close>

definition yellow :: pixel where
  "yellow = (255, 255, 0, 255)"

definition blend_add :: "pixel \<Rightarrow> pixel \<Rightarrow> pixel" where
  "blend_add c p =
     (case c of (cr, cg, cb, ca) \<Rightarrow>
        (case p of (r, g, b, a) \<Rightarrow> (min 255 (r + cr), min 255 (g + cg), min 255 (b + cb), a)))"

definition surface_fill_add :: "pixel \<Rightarrow> surface_ref \<Rightarrow> ('c, 'l) world \<Rightarrow> ('c, 'l) world" where
  "surface_fill_add c s w = w\<lparr>surfaces := (surfaces w)(s := map (blend_add c) (surfaces w s))\<rparr>"

definition surface_copy :: "surface_ref \<Rightarrow> ('c, 'l) world \<Rightarrow> surface_ref \<times> ('c, 'l) world" where
  "surface_copy s w =
     (next_surface w,
      w\<lparr>surfaces := (surfaces w)(next_surface w := surfaces w s),
        next_surface := Suc (next_surface w)\<rparr>)"

text \<open>
  Indexing a Python list of length \<open>len\<close> with \<open>i\<close>: the indices \<open>0 .. len - 1\<close>
  address the elements from the front, \<open>-len .. -1\<close> from the back, and every other
  index raises IndexError. \<open>py_index\<close> gives the position addressed, \<open>list_getitem\<close> is
  \<open>xs[i]\<close> and \<open>list_setitem\<close> is \<open>xs[i] = v\<close>.
\<close>

definition py_index :: "nat \<Rightarrow> int \<Rightarrow> nat option" where
  "py_index len i =
     (if 0 \<le> i \<and> i < int len then Some (nat i)
      else if - int len \<le> i \<and> i < 0 then Some (nat (int len + i))
      else None)"

definition list_getitem :: "'a list \<Rightarrow> int \<Rightarrow> py_error + 'a" where
  "list_getitem xs i =
     (case py_index (length xs) i of None \<Rightarrow> Inl IndexError | Some j \<Rightarrow> Inr (xs ! j))"

definition list_setitem :: "'a list \<Rightarrow> int \<Rightarrow> 'a \<Rightarrow> py_error + 'a list" where
  "list_setitem xs i v =
     (case py_index (length xs) i of None \<Rightarrow> Inl IndexError | Some j \<Rightarrow> Inr (xs[j := v]))"

subsection \<open>The methods of Player\<close>

text \<open>
  \<open>Player.__init__\<close>. The constructor only stores its arguments and initial values; it
  has no failure branch. Its result is a sum all the same, so that "the constructor fails"
  can be stated.
\<close>

definition Player_init ::
  "('c, 'l) env \<Rightarrow> 'c vector2 \<Rightarrow> int \<Rightarrow> int \<Rightarrow> surface_ref \<Rightarrow> mask \<Rightarrow> (string \<rightharpoonup> 'c) \<Rightarrow>
   surface_ref \<Rightarrow> mask \<Rightarrow> sound \<Rightarrow> surface_ref \<Rightarrow> mask \<Rightarrow> sound \<Rightarrow> sound \<Rightarrow> sound \<Rightarrow>
   surface_ref list \<Rightarrow> py_error + 'c player" where
  "Player_init k pos0 hp0 speed0 ship_img ship_mask offset0 laser_img0 laser_mask0 laser_sfx0
     missle_img missle_mask laser_hit_sfx0 explosion_sfx0 missile_sfx0 idle_animation_frames0 =
   Inr \<lparr>pos = pos0, hp = hp0, speed = speed0, img = ship_img, mask = ship_mask,
        offset = offset0,
        cooldown_threshold = BASE_CANNON_COOLDOWN k,
        cooldown_counter = 0,
        laser_dmg = BASE_LASER_DMG k,
        missile_count = 2,
        score = 0,
        laser_img = laser_img0,
        lasers_fired = [],
        laser_mask = laser_mask0,
        missile_img = missle_img,
        missile_mask = missle_mask,
        missiles_fired = [],
        missile_cooldown_threshold = BASE_CANNON_COOLDOWN k,
        missile_cooldown_counter = 0,
        missile_sfx = missile_sfx0,
        laser_sfx = laser_sfx0,
        laser_hit_sfx = laser_hit_sfx0,
        explosion_sfx = explosion_sfx0,
        idle_animation_frames = idle_animation_frames0,
        current_frame = 0,
        animation_counter = 0,
        glow_effect_duration = 200,
        glow_effect_end_time = 0,
        original_images = []\<rparr>"

text \<open>
  \<open>Player.shoot\<close>. Both dict lookups are evaluated before anything is changed, so a
  KeyError leaves the world as it was.
\<close>

definition shoot :: "('c::minus, 'l) env \<Rightarrow> ('c, 'l) world \<Rightarrow> py_error + ('c, 'l) world" where
  "shoot k w =
     (let self = player w in
      if cooldown_counter self = 0 then
        (case offset self ''y'' of
           None \<Rightarrow> Inl KeyError
         | Some oy \<Rightarrow>
             (case IMG_OFFSETS k ''blueLaser'' of
                None \<Rightarrow> Inl KeyError
              | Some lo \<Rightarrow>
                  let laser_pos = (fst (pos self), snd (pos self) - oy);
                      laser = \<lparr>pos = laser_pos, hp = laser_dmg self,
                               speed = BASE_LASER_SPEED k, img = laser_img self,
                               mask = laser_mask self, offset = lo\<rparr>;
                      r = next_ref w;
                      w1 = w\<lparr>actors := (actors w)(r := laser), next_ref := Suc r\<rparr>;
                      w2 = w1\<lparr>player := self\<lparr>lasers_fired := group_add r (lasers_fired self)\<rparr>\<rparr>;
                      w3 = play (laser_sfx self) w2
                  in Inr (w3\<lparr>player := (player w3)\<lparr>cooldown_counter := 1\<rparr>\<rparr>)))
      else Inr w)"

text \<open>\<open>Player.cooldown_cannon\<close> and \<open>Player.cooldown_missiles\<close>.\<close>

definition cooldown_cannon :: "'c player \<Rightarrow> 'c player" where
  "cooldown_cannon self =
     (if cooldown_counter self \<ge> cooldown_threshold self then self\<lparr>cooldown_counter := 0\<rparr>
      else if cooldown_counter self > 0 then self\<lparr>cooldown_counter := cooldown_counter self + 1\<rparr>
      else self)"

definition cooldown_missiles :: "'c player \<Rightarrow> 'c player" where
  "cooldown_missiles self =
     (if missile_cooldown_counter self \<ge> missile_cooldown_threshold self
      then self\<lparr>missile_cooldown_counter := 0\<rparr>
      else if missile_cooldown_counter self > 0
      then self\<lparr>missile_cooldown_counter := missile_cooldown_counter self + 1\<rparr>
      else self)"

text \<open>
  \<open>Player.fire_missle\<close>. The Missile is built from position, hit points 1, the player's
  speed, image, mask, offset, lock and the angle 90.0.
\<close>

definition fire_missle ::
  "('c::minus, 'l) env \<Rightarrow> ref option list \<Rightarrow> ('c, 'l) world \<Rightarrow> py_error + ('c, 'l) world" where
  "fire_missle k targets w =
     (let self = player w in
      if missile_count self > 0 \<and> missile_cooldown_counter self = 0 then
        (case offset self ''y'' of
           None \<Rightarrow> Inl KeyError
         | Some oy \<Rightarrow>
             let missile_pos = (fst (pos self), snd (pos self) - oy);
                 lock = Missile_lock k (pos self) targets (actors w)
             in (case IMG_OFFSETS k ''blueMissile'' of
                   None \<Rightarrow> Inl KeyError
                 | Some mo \<Rightarrow>
                     let missile = \<lparr>pos = missile_pos, hp = 1, speed = speed self,
                                     img = missile_img self, mask = missile_mask self,
                                     offset = mo\<rparr>;
                         r = next_ref w;
                         w1 = w\<lparr>actors := (actors w)(r := missile),
                                missile_attrs := (missile_attrs w)(r \<mapsto> (lock, 90)),
                                next_ref := Suc r\<rparr>;
                         w2 = play (missile_sfx self) w1
                     in Inr (w2\<lparr>player := self
                               \<lparr>missiles_fired := group_add r (missiles_fired self),
                                missile_count := missile_count self - 1,
                                missile_cooldown_counter := 1\<rparr>\<rparr>)))
      else Inr w)"

text \<open>\<open>Player.start_glow_effect\<close>; \<open>now\<close> is what \<open>pygame.time.get_ticks()\<close> returns.\<close>

definition start_glow_effect :: "int \<Rightarrow> 'c player \<Rightarrow> 'c player" where
  "start_glow_effect now self = self\<lparr>glow_effect_end_time := now + glow_effect_duration self\<rparr>"

text \<open>
  \<open>Player.resolve_hits\<close>. \<open>laser_hit\<close> is the body of the \<open>if\<close> for one colliding
  candidate: one hit point less, the hit sound, on \<open>hp <= 0\<close> the removal hook, the
  explosion sound and the entry in the kill list, and in every case the removal of the laser
  from \<open>lasers_fired\<close>. The loop does not stop at a hit; \<open>None\<close> entries are skipped.
\<close>

definition laser_hit ::
  "ref \<Rightarrow> ref \<Rightarrow> ref list \<times> ('c, 'l) world \<Rightarrow> ref list \<times> ('c, 'l) world" where
  "laser_hit laser obj st =
     (case st of (objs_to_kill, w) \<Rightarrow>
        let w1 = w\<lparr>actors := (actors w)(obj := (actors w obj)\<lparr>hp := hp (actors w obj) - 1\<rparr>)\<rparr>;
            w2 = play (laser_hit_sfx (player w1)) w1;
            st3 = (if hp (actors w2 obj) \<le> 0
                   then (objs_to_kill @ [obj], play (explosion_sfx (player w2)) (kill obj w2))
                   else (objs_to_kill, w2));
            w3 = snd st3
        in (fst st3,
            w3\<lparr>player := (player w3)\<lparr>lasers_fired := group_remove laser (lasers_fired (player w3))\<rparr>\<rparr>))"

fun resolve_hits_loop ::
  "('c, 'l) env \<Rightarrow> ref \<Rightarrow> ref option list \<Rightarrow> ref list \<times> ('c, 'l) world \<Rightarrow> ref list \<times> ('c, 'l) world"
where
  "resolve_hits_loop k laser [] st = st"
| "resolve_hits_loop k laser (None # objs) st = resolve_hits_loop k laser objs st"
| "resolve_hits_loop k laser (Some obj # objs) st =
     (if resolve_collision k (shape (actors (snd st) laser)) (shape (actors (snd st) obj))
      then resolve_hits_loop k laser objs (laser_hit laser obj st)
      else resolve_hits_loop k laser objs st)"

definition resolve_hits ::
  "('c, 'l) env \<Rightarrow> ref \<Rightarrow> ref option list \<Rightarrow> ('c, 'l) world \<Rightarrow> ref list \<times> ('c, 'l) world" where
  "resolve_hits k laser objs w = resolve_hits_loop k laser objs ([], w)"

text \<open>
  \<open>Player.resolve_missiles\<close>: the explosion sound first, three hit points less, on
  \<open>hp <= 0\<close> the removal hook and the entry in the kill list, and the removal of the missile
  from \<open>missiles_fired\<close>.
\<close>

definition missile_hit ::
  "ref \<Rightarrow> ref \<Rightarrow> ref list \<times> ('c, 'l) world \<Rightarrow> ref list \<times> ('c, 'l) world" where
  "missile_hit missile obj st =
     (case st of (objs_to_kill, w) \<Rightarrow>
        let w1 = play (explosion_sfx (player w)) w;
            w2 = w1\<lparr>actors := (actors w1)(obj := (actors w1 obj)\<lparr>hp := hp (actors w1 obj) - 3\<rparr>)\<rparr>;
            st3 = (if hp (actors w2 obj) \<le> 0
                   then (objs_to_kill @ [obj], kill obj w2)
                   else (objs_to_kill, w2));
            w3 = snd st3
        in (fst st3,
            w3\<lparr>player := (player w3)
                 \<lparr>missiles_fired := group_remove missile (missiles_fired (player w3))\<rparr>\<rparr>))"

fun resolve_missiles_loop ::
  "('c, 'l) env \<Rightarrow> ref \<Rightarrow> ref option list \<Rightarrow> ref list \<times> ('c, 'l) world \<Rightarrow> ref list \<times> ('c, 'l) world"
where
  "resolve_missiles_loop k missile [] st = st"
| "resolve_missiles_loop k missile (None # objs) st = resolve_missiles_loop k missile objs st"
| "resolve_missiles_loop k missile (Some obj # objs) st =
     (if resolve_collision k (shape (actors (snd st) missile)) (shape (actors (snd st) obj))
      then resolve_missiles_loop k missile objs (missile_hit missile obj st)
      else resolve_missiles_loop k missile objs st)"

definition resolve_missiles ::
  "('c, 'l) env \<Rightarrow> ref \<Rightarrow> ref option list \<Rightarrow> ('c, 'l) world \<Rightarrow> ref list \<times> ('c, 'l) world" where
  "resolve_missiles k missile objs w = resolve_missiles_loop k missile objs ([], w)"

text \<open>
  \<open>Player.update_idle_animation\<close>, in the three steps of its body.

  First step: on every call with \<open>animation_counter % 5 == 0\<close> the frame index advances
  modulo the number of frames and \<open>img\<close> becomes that frame (the same Surface object, not a
  copy). With no frames the modulus raises ZeroDivisionError before anything is assigned.
\<close>

definition advance_frame :: "'c player \<Rightarrow> py_error + 'c player" where
  "advance_frame self =
     (if animation_counter self mod 5 = 0 then
        (if length (idle_animation_frames self) = 0 then Inl ZeroDivisionError
         else
           let cf = (current_frame self + 1) mod int (length (idle_animation_frames self))
           in (case list_getitem (idle_animation_frames self) cf of
                 Inl e \<Rightarrow> Inl e
               | Inr f \<Rightarrow> Inr (self\<lparr>current_frame := cf, img := f\<rparr>)))
      else Inr self)"

text \<open>
  Second step, glow active: \<open>original_images.get(current_frame)\<close> is a Surface or None, and
  a Surface is true, so the test \<open>not ...get(...)\<close> holds when the key is absent. Then a
  copy of \<open>img\<close> is stored under the key, and \<open>img\<close> is filled in place.
\<close>

definition apply_glow :: "('c, 'l) world \<Rightarrow> ('c, 'l) world" where
  "apply_glow w =
     (let self = player w;
          w1 = (if map_of (original_images self) (current_frame self) = None then
                  (case surface_copy (img self) w of
                     (c, w') \<Rightarrow>
                       w'\<lparr>player := self\<lparr>original_images :=
                             AList.update (current_frame self) c (original_images self)\<rparr>\<rparr>)
                else w)
      in surface_fill_add yellow (img (player w1)) w1)"

text \<open>
  Second step, glow over: every cached image is stored back into the frame list, then the
  cache is cleared. An index out of range raises IndexError.
\<close>

fun restore_items :: "(int \<times> surface_ref) list \<Rightarrow> surface_ref list \<Rightarrow> py_error + surface_ref list" where
  "restore_items [] frames = Inr frames"
| "restore_items ((frame_idx, frame_img) # items) frames =
     (case list_setitem frames frame_idx frame_img of
        Inl e \<Rightarrow> Inl e
      | Inr frames' \<Rightarrow> restore_items items frames')"

definition restore_images :: "'c player \<Rightarrow> py_error + 'c player" where
  "restore_images self =
     (case restore_items (original_images self) (idle_animation_frames self) of
        Inl e \<Rightarrow> Inl e
      | Inr frames \<Rightarrow> Inr (self\<lparr>idle_animation_frames := frames, original_images := []\<rparr>))"

definition update_idle_animation :: "int \<Rightarrow> ('c, 'l) world \<Rightarrow> py_error + ('c, 'l) world" where
  "update_idle_animation now w =
     (case advance_frame (player w) of
        Inl e \<Rightarrow> Inl e
      | Inr self1 \<Rightarrow>
          (case (if now < glow_effect_end_time self1
                 then Inr (apply_glow (w\<lparr>player := self1\<rparr>))
                 else (case restore_images self1 of
                         Inl e \<Rightarrow> Inl e
                       | Inr self2 \<Rightarrow> Inr (w\<lparr>player := self2\<rparr>))) of
             Inl e \<Rightarrow> Inl e
           | Inr w2 \<Rightarrow>
               Inr (w2\<lparr>player := (player w2)
                        \<lparr>animation_counter := animation_counter (player w2) + 1\<rparr>\<rparr>)))"

subsection \<open>Sequences of calls\<close>

text \<open>
  The game loop calls the methods one after the other; an exception ends the run.
  \<open>Update_idle_animation\<close> and \<open>Start_glow_effect\<close> carry the clock value the call reads.
\<close>

datatype call =
    Shoot
  | Update_idle_animation int
  | Resolve_hits ref "ref option list"
  | Cooldown_cannon
  | Fire_missle "ref option list"
  | Resolve_missiles ref "ref option list"
  | Start_glow_effect int
  | Cooldown_missiles

fun do_call :: "('c::minus, 'l) env \<Rightarrow> call \<Rightarrow> ('c, 'l) world \<Rightarrow> py_error + ('c, 'l) world" where
  "do_call k Shoot w = shoot k w"
| "do_call k (Update_idle_animation now) w = update_idle_animation now w"
| "do_call k (Resolve_hits laser objs) w = Inr (snd (resolve_hits k laser objs w))"
| "do_call k Cooldown_cannon w = Inr (w\<lparr>player := cooldown_cannon (player w)\<rparr>)"
| "do_call k (Fire_missle targets) w = fire_missle k targets w"
| "do_call k (Resolve_missiles missile objs) w = Inr (snd (resolve_missiles k missile objs w))"
| "do_call k (Start_glow_effect now) w = Inr (w\<lparr>player := start_glow_effect now (player w)\<rparr>)"
| "do_call k Cooldown_missiles w = Inr (w\<lparr>player := cooldown_missiles (player w)\<rparr>)"

fun calls :: "('c::minus, 'l) env \<Rightarrow> call list \<Rightarrow> ('c, 'l) world \<Rightarrow> py_error + ('c, 'l) world" where
  "calls k [] w = Inr w"
| "calls k (c # cs) w = (case do_call k c w of Inl e \<Rightarrow> Inl e | Inr w' \<Rightarrow> calls k cs w')"

subsection \<open>What every reachable state satisfies\<close>

text \<open>
  The thresholds, the laser damage and the glow duration are set by the constructor and
  never assigned again; the missile count never drops below zero; the members of the two
  sprite groups are objects that exist already, so that the next object created is not one of
  them.
\<close>

definition player_inv :: "('c, 'l) env \<Rightarrow> ('c, 'l) world \<Rightarrow> bool" where
  "player_inv k w \<longleftrightarrow>
     cooldown_threshold (player w) = BASE_CANNON_COOLDOWN k \<and>
     missile_cooldown_threshold (player w) = BASE_CANNON_COOLDOWN k \<and>
     laser_dmg (player w) = BASE_LASER_DMG k \<and>
     glow_effect_duration (player w) = 200 \<and>
     0 \<le> missile_count (player w) \<and>
     (\<forall>r \<in> set (lasers_fired (player w)). r < next_ref w) \<and>
     (\<forall>r \<in> set (missiles_fired (player w)). r < next_ref w)"

text \<open>Both cooldown counters lie between zero and their threshold.\<close>

definition cooldown_inv :: "'c player \<Rightarrow> bool" where
  "cooldown_inv p \<longleftrightarrow>
     0 \<le> cooldown_counter p \<and> cooldown_counter p \<le> cooldown_threshold p \<and>
     0 \<le> missile_cooldown_counter p \<and> missile_cooldown_counter p \<le> missile_cooldown_threshold p"

subsection \<open>A small world to run the methods in\<close>

text \<open>
  Integer coordinates, a cooldown threshold of 3, a collision test that compares the
  horizontal position, and sprite objects whose hit points equal their reference. The player
  is built by the constructor, with three animation frames.
\<close>

definition demo_env :: "(int, unit) env" where
  "demo_env =
     \<lparr>IMG_OFFSETS = [''blueLaser'' \<mapsto> [''x'' \<mapsto> 1, ''y'' \<mapsto> 4],
                     ''blueMissile'' \<mapsto> [''x'' \<mapsto> 1, ''y'' \<mapsto> 6]],
      BASE_LASER_SPEED = 10,
      BASE_CANNON_COOLDOWN = 3,
      BASE_LASER_DMG = 1,
      resolve_collision = (\<lambda>a b. fst (fst a) = fst (fst b)),
      Missile_lock = (\<lambda>p ts h. ())\<rparr>"

definition demo_player :: "int player" where
  "demo_player =
     projr (Player_init demo_env (0, 9) 3 2 0 (Mask 0) [''x'' \<mapsto> 2, ''y'' \<mapsto> 2] 1 (Mask 1) (Sound 0)
              2 (Mask 2) (Sound 1) (Sound 2) (Sound 3) [3, 4, 5])"

definition demo_world :: "(int, unit) world" where
  "demo_world =
     \<lparr>player = demo_player,
      actors = (\<lambda>r. \<lparr>pos = (if r < 5 then 0 else 1, 0), hp = int r, speed = 0, img = 0,
                     mask = Mask 0, offset = Map.empty\<rparr>),
      missile_attrs = Map.empty,
      next_ref = 10,
      surfaces = (\<lambda>s. [(10 * s, 20, 30, 255)]),
      next_surface = 6,
      trace = []\<rparr>"

subsection \<open>Auxiliary notions for the idle animation\<close>

text \<open>
  The cached frame indices address existing frames, so that storing the cached images back
  does not raise IndexError.
\<close>

definition cached_in_range :: "'c player \<Rightarrow> bool" where
  "cached_in_range p \<longleftrightarrow>
     (\<forall>i \<in> fst ` set (original_images p).
        - int (length (idle_animation_frames p)) \<le> i \<and> i < int (length (idle_animation_frames p)))"

text \<open>
  The number of calls with \<open>animation_counter % 5 == 0\<close> among \<open>m\<close> consecutive calls
  that start with the counter at \<open>ac\<close>: the multiples of 5 in \<open>ac .. ac + m - 1\<close>.
\<close>

definition frame_advances :: "int \<Rightarrow> nat \<Rightarrow> int" where
  "frame_advances ac m = (ac + int m + 4) div 5 - (ac + 4) div 5"

subsection \<open>Auxiliary notions for the hit resolution\<close>

text \<open>
  \<open>collides k w a b\<close>: the collision test on the objects \<open>a\<close> and \<open>b\<close> as they are in
  \<open>w\<close>. \<open>candidates\<close>: the entries of a candidate list that are not \<open>None\<close>.
  \<open>kills_of\<close> and \<open>sounds_of\<close>: the removal hooks invoked and the sounds played, in the
  order of the trace.
\<close>

definition collides :: "('c, 'l) env \<Rightarrow> ('c, 'l) world \<Rightarrow> ref \<Rightarrow> ref \<Rightarrow> bool" where
  "collides k w a b = resolve_collision k (shape (actors w a)) (shape (actors w b))"

fun candidates :: "ref option list \<Rightarrow> ref list" where
  "candidates [] = []"
| "candidates (None # objs) = candidates objs"
| "candidates (Some obj # objs) = obj # candidates objs"

fun kills_of :: "event list \<Rightarrow> ref list" where
  "kills_of [] = []"
| "kills_of (Kill r # evs) = r # kills_of evs"
| "kills_of (Play s # evs) = kills_of evs"

fun sounds_of :: "event list \<Rightarrow> sound list" where
  "sounds_of [] = []"
| "sounds_of (Kill r # evs) = sounds_of evs"
| "sounds_of (Play s # evs) = s # sounds_of evs"


section \<open>Invariants of the call sequences\<close>

lemma player_inv_init:
  "Player_init k a1 a2 a3 a4 a5 a6 a7 a8 a9 a10 a11 a12 a13 a14 a15 = Inr p \<Longrightarrow>
   player w = p \<Longrightarrow> player_inv k w"
  by (auto simp: Player_init_def player_inv_def)

lemma set_group_add: "set (group_add r g) = insert r (set g)"
  by (auto simp: group_add_def)

lemma set_group_remove: "set (group_remove r g) = set g - {r}"
  by (auto simp: group_remove_def)

lemma player_inv_shoot: "player_inv k w \<Longrightarrow> shoot k w = Inr w' \<Longrightarrow> player_inv k w'"
  by (auto simp: shoot_def player_inv_def Let_def play_def set_group_add less_Suc_eq
           split: if_splits option.splits)

lemma player_inv_fire_missle:
  "player_inv k w \<Longrightarrow> fire_missle k ts w = Inr w' \<Longrightarrow> player_inv k w'"
  by (auto simp: fire_missle_def player_inv_def Let_def play_def set_group_add less_Suc_eq
           split: if_splits option.splits)

lemma laser_hit_frame:
  "player (snd (laser_hit l obj st)) =
     (player (snd st))\<lparr>lasers_fired := group_remove l (lasers_fired (player (snd st)))\<rparr>"
  "next_ref (snd (laser_hit l obj st)) = next_ref (snd st)"
  by (cases st; simp add: laser_hit_def Let_def play_def kill_def)+

lemma player_inv_laser_hit:
  "player_inv k (snd st) \<Longrightarrow> player_inv k (snd (laser_hit l obj st))"
  by (simp add: player_inv_def laser_hit_frame set_group_remove)

lemma player_inv_resolve_hits_loop:
  "player_inv k (snd st) \<Longrightarrow> player_inv k (snd (resolve_hits_loop k l objs st))"
  by (induction k l objs st rule: resolve_hits_loop.induct) (simp_all add: player_inv_laser_hit)

lemma missile_hit_frame:
  "player (snd (missile_hit m obj st)) =
     (player (snd st))\<lparr>missiles_fired := group_remove m (missiles_fired (player (snd st)))\<rparr>"
  "next_ref (snd (missile_hit m obj st)) = next_ref (snd st)"
  by (cases st; simp add: missile_hit_def Let_def play_def kill_def)+

lemma player_inv_missile_hit:
  "player_inv k (snd st) \<Longrightarrow> player_inv k (snd (missile_hit m obj st))"
  by (simp add: player_inv_def missile_hit_frame set_group_remove)

lemma player_inv_resolve_missiles_loop:
  "player_inv k (snd st) \<Longrightarrow> player_inv k (snd (resolve_missiles_loop k m objs st))"
  by (induction k m objs st rule: resolve_missiles_loop.induct) (simp_all add: player_inv_missile_hit)

lemma advance_frame_frame:
  "advance_frame p = Inr p' \<Longrightarrow>
   \<exists>cf f. p' = p\<lparr>current_frame := cf, img := f\<rparr>"
  apply (auto simp: advance_frame_def Let_def split: if_splits sum.splits)
  apply (rule exI[of _ "current_frame p"], rule exI[of _ "img p"], simp)
  done

lemma player_inv_update_idle_animation:
  "player_inv k w \<Longrightarrow> update_idle_animation now w = Inr w' \<Longrightarrow> player_inv k w'"
  by (auto simp: update_idle_animation_def player_inv_def apply_glow_def surface_copy_def
        surface_fill_add_def restore_images_def Let_def
        dest!: advance_frame_frame split: if_splits sum.splits prod.splits)

lemma player_inv_do_call: "player_inv k w \<Longrightarrow> do_call k c w = Inr w' \<Longrightarrow> player_inv k w'"
proof (cases c)
  case Shoot
  then show "player_inv k w \<Longrightarrow> do_call k c w = Inr w' \<Longrightarrow> player_inv k w'"
    by (simp add: player_inv_shoot)
next
  case (Update_idle_animation now)
  then show "player_inv k w \<Longrightarrow> do_call k c w = Inr w' \<Longrightarrow> player_inv k w'"
    by (simp add: player_inv_update_idle_animation)
next
  case (Resolve_hits l objs)
  then show "player_inv k w \<Longrightarrow> do_call k c w = Inr w' \<Longrightarrow> player_inv k w'"
    using player_inv_resolve_hits_loop [of k "([], w)" l objs] by (auto simp: resolve_hits_def)
next
  case Cooldown_cannon
  then show "player_inv k w \<Longrightarrow> do_call k c w = Inr w' \<Longrightarrow> player_inv k w'"
    by (auto simp: player_inv_def cooldown_cannon_def split: if_splits)
next
  case (Fire_missle ts)
  then show "player_inv k w \<Longrightarrow> do_call k c w = Inr w' \<Longrightarrow> player_inv k w'"
    by (simp add: player_inv_fire_missle)
next
  case (Resolve_missiles m objs)
  then show "player_inv k w \<Longrightarrow> do_call k c w = Inr w' \<Longrightarrow> player_inv k w'"
    using player_inv_resolve_missiles_loop [of k "([], w)" m objs] by (auto simp: resolve_missiles_def)
next
  case (Start_glow_effect now)
  then show "player_inv k w \<Longrightarrow> do_call k c w = Inr w' \<Longrightarrow> player_inv k w'"
    by (auto simp: player_inv_def start_glow_effect_def)
next
  case Cooldown_missiles
  then show "player_inv k w \<Longrightarrow> do_call k c w = Inr w' \<Longrightarrow> player_inv k w'"
    by (auto simp: player_inv_def cooldown_missiles_def split: if_splits)
qed

lemma player_inv_calls: "player_inv k w \<Longrightarrow> calls k cs w = Inr w' \<Longrightarrow> player_inv k w'"
  by (induction cs arbitrary: w) (auto split: sum.splits dest: player_inv_do_call)

section \<open>The cooldown counters\<close>

lemma shoot_counters:
  "shoot k w = Inr w' \<Longrightarrow>
   cooldown_threshold (player w') = cooldown_threshold (player w) \<and>
   missile_cooldown_threshold (player w') = missile_cooldown_threshold (player w) \<and>
   missile_cooldown_counter (player w') = missile_cooldown_counter (player w) \<and>
   cooldown_counter (player w') = (if cooldown_counter (player w) = 0 then 1 else cooldown_counter (player w))"
  by (auto simp: shoot_def Let_def play_def split: if_splits option.splits)

lemma fire_missle_counters:
  "fire_missle k ts w = Inr w' \<Longrightarrow>
   cooldown_threshold (player w') = cooldown_threshold (player w) \<and>
   missile_cooldown_threshold (player w') = missile_cooldown_threshold (player w) \<and>
   cooldown_counter (player w') = cooldown_counter (player w) \<and>
   missile_cooldown_counter (player w') =
     (if 0 < missile_count (player w) \<and> missile_cooldown_counter (player w) = 0 then 1
      else missile_cooldown_counter (player w))"
  by (auto simp: fire_missle_def Let_def play_def split: if_splits option.splits)

lemma resolve_hits_loop_player:
  "\<exists>g. player (snd (resolve_hits_loop k l objs st)) = (player (snd st))\<lparr>lasers_fired := g\<rparr>"
proof (induction k l objs st rule: resolve_hits_loop.induct)
  case (1 k laser st)
  show ?case by (rule exI [of _ "lasers_fired (player (snd st))"]) simp
next
  case (2 k laser objs st)
  then show ?case by simp
next
  case (3 k laser obj objs st)
  then show ?case by (auto simp: laser_hit_frame)
qed

lemma resolve_missiles_loop_player:
  "\<exists>g. player (snd (resolve_missiles_loop k m objs st)) = (player (snd st))\<lparr>missiles_fired := g\<rparr>"
proof (induction k m objs st rule: resolve_missiles_loop.induct)
  case (1 k missile st)
  show ?case by (rule exI [of _ "missiles_fired (player (snd st))"]) simp
next
  case (2 k missile objs st)
  then show ?case by simp
next
  case (3 k missile obj objs st)
  then show ?case by (auto simp: missile_hit_frame)
qed

lemma update_idle_animation_counters:
  "update_idle_animation now w = Inr w' \<Longrightarrow>
   cooldown_threshold (player w') = cooldown_threshold (player w) \<and>
   missile_cooldown_threshold (player w') = missile_cooldown_threshold (player w) \<and>
   cooldown_counter (player w') = cooldown_counter (player w) \<and>
   missile_cooldown_counter (player w') = missile_cooldown_counter (player w)"
  by (auto simp: update_idle_animation_def apply_glow_def surface_copy_def
        surface_fill_add_def restore_images_def Let_def
        dest!: advance_frame_frame split: if_splits sum.splits prod.splits)

lemma cooldown_inv_do_call:
  assumes "1 \<le> cooldown_threshold (player w)" and "1 \<le> missile_cooldown_threshold (player w)"
    and "cooldown_inv (player w)" and "do_call k c w = Inr w'"
  shows "cooldown_inv (player w')"
proof (cases c)
  case Shoot
  with assms show ?thesis
    using shoot_counters [of k w w'] by (auto simp: cooldown_inv_def split: if_splits)
next
  case (Update_idle_animation now)
  with assms show ?thesis
    using update_idle_animation_counters [of now w w'] by (auto simp: cooldown_inv_def)
next
  case (Resolve_hits l objs)
  with assms show ?thesis
    using resolve_hits_loop_player [of k l objs "([], w)"]
    by (auto simp: cooldown_inv_def resolve_hits_def)
next
  case Cooldown_cannon
  with assms show ?thesis
    by (auto simp: cooldown_inv_def cooldown_cannon_def)
next
  case (Fire_missle ts)
  with assms show ?thesis
    using fire_missle_counters [of k ts w w'] by (auto simp: cooldown_inv_def split: if_splits)
next
  case (Resolve_missiles m objs)
  with assms show ?thesis
    using resolve_missiles_loop_player [of k m objs "([], w)"]
    by (auto simp: cooldown_inv_def resolve_missiles_def)
next
  case (Start_glow_effect now)
  with assms show ?thesis
    by (auto simp: cooldown_inv_def start_glow_effect_def)
next
  case Cooldown_missiles
  with assms show ?thesis
    by (auto simp: cooldown_inv_def cooldown_missiles_def)
qed

lemma cooldown_inv_calls:
  "1 \<le> BASE_CANNON_COOLDOWN k \<Longrightarrow> player_inv k w \<Longrightarrow> cooldown_inv (player w) \<Longrightarrow>
   calls k cs w = Inr w' \<Longrightarrow> cooldown_inv (player w')"
proof (induction cs arbitrary: w)
  case Nil
  then show ?case by simp
next
  case (Cons c cs)
  from Cons.prems(4) obtain w1 where c: "do_call k c w = Inr w1" and cs: "calls k cs w1 = Inr w'"
    by (auto split: sum.splits)
  have "player_inv k w1" using Cons.prems(2) c by (rule player_inv_do_call)
  moreover have "cooldown_inv (player w1)"
    using Cons.prems(1,2,3) c by (intro cooldown_inv_do_call [of w k c w1]) (simp_all add: player_inv_def)
  ultimately show ?case using Cons.IH Cons.prems(1) cs by blast
qed

lemma cooldown_inv_init:
  "1 \<le> BASE_CANNON_COOLDOWN k \<Longrightarrow>
   Player_init k a1 a2 a3 a4 a5 a6 a7 a8 a9 a10 a11 a12 a13 a14 a15 = Inr p \<Longrightarrow> cooldown_inv p"
  by (auto simp: Player_init_def cooldown_inv_def)

lemma cooldown_cannon_iter:
  "cooldown_counter p = 1 \<Longrightarrow> int j < cooldown_threshold p \<Longrightarrow>
   cooldown_counter ((cooldown_cannon ^^ j) p) = 1 + int j \<and>
   cooldown_threshold ((cooldown_cannon ^^ j) p) = cooldown_threshold p"
  by (induction j) (auto simp: cooldown_cannon_def)

lemma cooldown_cannon_ready:
  assumes "cooldown_counter p = 1" and "1 \<le> cooldown_threshold p"
  shows "cooldown_counter ((cooldown_cannon ^^ nat (cooldown_threshold p)) p) = 0"
proof -
  obtain j where j: "nat (cooldown_threshold p) = Suc j" using assms(2) by (cases "nat (cooldown_threshold p)") auto
  then have "int j < cooldown_threshold p" by linarith
  from cooldown_cannon_iter [OF assms(1) this] j
  have "cooldown_counter ((cooldown_cannon ^^ j) p) = cooldown_threshold ((cooldown_cannon ^^ j) p)"
    by simp
  then show ?thesis by (simp add: j cooldown_cannon_def)
qed

lemma cooldown_missiles_iter:
  "missile_cooldown_counter p = 1 \<Longrightarrow> int j < missile_cooldown_threshold p \<Longrightarrow>
   missile_cooldown_counter ((cooldown_missiles ^^ j) p) = 1 + int j \<and>
   missile_cooldown_threshold ((cooldown_missiles ^^ j) p) = missile_cooldown_threshold p"
  by (induction j) (auto simp: cooldown_missiles_def)

lemma cooldown_missiles_ready:
  assumes "missile_cooldown_counter p = 1" and "1 \<le> missile_cooldown_threshold p"
  shows "missile_cooldown_counter ((cooldown_missiles ^^ nat (missile_cooldown_threshold p)) p) = 0"
proof -
  obtain j where j: "nat (missile_cooldown_threshold p) = Suc j"
    using assms(2) by (cases "nat (missile_cooldown_threshold p)") auto
  then have "int j < missile_cooldown_threshold p" by linarith
  from cooldown_missiles_iter [OF assms(1) this] j
  have "missile_cooldown_counter ((cooldown_missiles ^^ j) p) =
        missile_cooldown_threshold ((cooldown_missiles ^^ j) p)"
    by simp
  then show ?thesis by (simp add: j cooldown_missiles_def)
qed

text \<open>
  C2. Let the cooldown threshold constant be at least 1. After any sequence of calls on a
  freshly constructed player, the cannon cooldown counter lies in [0, threshold]; a tick with
  the counter at or above the threshold resets it to 0, a tick with the counter strictly
  between 0 and the threshold adds 1, a tick at 0 leaves it at 0; a shot fired at counter 0
  sets the counter to 1, and the counter is 1 + j after j < threshold further ticks and 0
  after exactly threshold ticks. The same holds for the missile counter with
  \<open>fire_missle\<close> and \<open>cooldown_missiles\<close>.
\<close>

theorem cooldown_state_machine:
  assumes "1 \<le> BASE_CANNON_COOLDOWN k"
    and "Player_init k a1 a2 a3 a4 a5 a6 a7 a8 a9 a10 a11 a12 a13 a14 a15 = Inr p0"
    and "player w0 = p0"
    and "calls k cs w0 = Inr w"
  shows "(0 \<le> cooldown_counter (player w) \<and>
          cooldown_counter (player w) \<le> cooldown_threshold (player w)) \<and>
         (cooldown_threshold (player w) \<le> cooldown_counter (player w) \<longrightarrow>
            cooldown_counter (cooldown_cannon (player w)) = 0) \<and>
         (0 < cooldown_counter (player w) \<and>
          cooldown_counter (player w) < cooldown_threshold (player w) \<longrightarrow>
            cooldown_counter (cooldown_cannon (player w)) = cooldown_counter (player w) + 1) \<and>
         (cooldown_counter (player w) = 0 \<longrightarrow>
            cooldown_counter (cooldown_cannon (player w)) = 0) \<and>
         (cooldown_counter (player w) = 0 \<and> shoot k w = Inr w1 \<longrightarrow>
            cooldown_counter (player w1) = 1 \<and>
            (\<forall>j. int j < cooldown_threshold (player w) \<longrightarrow>
                 cooldown_counter ((cooldown_cannon ^^ j) (player w1)) = 1 + int j) \<and>
            cooldown_counter ((cooldown_cannon ^^ nat (cooldown_threshold (player w))) (player w1)) = 0) \<and>
         (0 \<le> missile_cooldown_counter (player w) \<and>
          missile_cooldown_counter (player w) \<le> missile_cooldown_threshold (player w)) \<and>
         (missile_cooldown_threshold (player w) \<le> missile_cooldown_counter (player w) \<longrightarrow>
            missile_cooldown_counter (cooldown_missiles (player w)) = 0) \<and>
         (0 < missile_cooldown_counter (player w) \<and>
          missile_cooldown_counter (player w) < missile_cooldown_threshold (player w) \<longrightarrow>
            missile_cooldown_counter (cooldown_missiles (player w)) =
              missile_cooldown_counter (player w) + 1) \<and>
         (missile_cooldown_counter (player w) = 0 \<longrightarrow>
            missile_cooldown_counter (cooldown_missiles (player w)) = 0) \<and>
         (0 < missile_count (player w) \<and> missile_cooldown_counter (player w) = 0 \<and>
          fire_missle k targets w = Inr w2 \<longrightarrow>
            missile_cooldown_counter (player w2) = 1 \<and>
            (\<forall>j. int j < missile_cooldown_threshold (player w) \<longrightarrow>
                 missile_cooldown_counter ((cooldown_missiles ^^ j) (player w2)) = 1 + int j) \<and>
            missile_cooldown_counter
              ((cooldown_missiles ^^ nat (missile_cooldown_threshold (player w))) (player w2)) = 0)"
proof -
  have pinv0: "player_inv k w0" using assms(2,3) by (rule player_inv_init)
  have pinv: "player_inv k w" using pinv0 assms(4) by (rule player_inv_calls)
  have "cooldown_inv (player w0)" using assms(1,2,3) cooldown_inv_init by blast
  then have cinv: "cooldown_inv (player w)"
    using assms(1,4) pinv0 cooldown_inv_calls by blast
  have T1: "1 \<le> cooldown_threshold (player w)" and T2: "1 \<le> missile_cooldown_threshold (player w)"
    using pinv assms(1) by (simp_all add: player_inv_def)
  have range: "0 \<le> cooldown_counter (player w) \<and>
          cooldown_counter (player w) \<le> cooldown_threshold (player w)"
    and mrange: "0 \<le> missile_cooldown_counter (player w) \<and>
          missile_cooldown_counter (player w) \<le> missile_cooldown_threshold (player w)"
    using cinv by (simp_all add: cooldown_inv_def)
  have ticks: "(cooldown_threshold (player w) \<le> cooldown_counter (player w) \<longrightarrow>
            cooldown_counter (cooldown_cannon (player w)) = 0) \<and>
         (0 < cooldown_counter (player w) \<and>
          cooldown_counter (player w) < cooldown_threshold (player w) \<longrightarrow>
            cooldown_counter (cooldown_cannon (player w)) = cooldown_counter (player w) + 1) \<and>
         (cooldown_counter (player w) = 0 \<longrightarrow>
            cooldown_counter (cooldown_cannon (player w)) = 0)"
    by (simp add: cooldown_cannon_def)
  have mticks: "(missile_cooldown_threshold (player w) \<le> missile_cooldown_counter (player w) \<longrightarrow>
            missile_cooldown_counter (cooldown_missiles (player w)) = 0) \<and>
         (0 < missile_cooldown_counter (player w) \<and>
          missile_cooldown_counter (player w) < missile_cooldown_threshold (player w) \<longrightarrow>
            missile_cooldown_counter (cooldown_missiles (player w)) =
              missile_cooldown_counter (player w) + 1) \<and>
         (missile_cooldown_counter (player w) = 0 \<longrightarrow>
            missile_cooldown_counter (cooldown_missiles (player w)) = 0)"
    by (simp add: cooldown_missiles_def)
  have fire: "cooldown_counter (player w1) = 1 \<and>
            (\<forall>j. int j < cooldown_threshold (player w) \<longrightarrow>
                 cooldown_counter ((cooldown_cannon ^^ j) (player w1)) = 1 + int j) \<and>
            cooldown_counter ((cooldown_cannon ^^ nat (cooldown_threshold (player w))) (player w1)) = 0"
    if r: "cooldown_counter (player w) = 0" and s: "shoot k w = Inr w1"
  proof -
    from shoot_counters [OF s] r
    have c1: "cooldown_counter (player w1) = 1"
      and t: "cooldown_threshold (player w1) = cooldown_threshold (player w)" by simp_all
    show ?thesis
      using c1 t T1 cooldown_cannon_iter [OF c1] cooldown_cannon_ready [OF c1] by simp
  qed
  have mfire: "missile_cooldown_counter (player w2) = 1 \<and>
            (\<forall>j. int j < missile_cooldown_threshold (player w) \<longrightarrow>
                 missile_cooldown_counter ((cooldown_missiles ^^ j) (player w2)) = 1 + int j) \<and>
            missile_cooldown_counter
              ((cooldown_missiles ^^ nat (missile_cooldown_threshold (player w))) (player w2)) = 0"
    if r: "0 < missile_count (player w)" "missile_cooldown_counter (player w) = 0"
      and s: "fire_missle k targets w = Inr w2"
  proof -
    from fire_missle_counters [OF s] r
    have c1: "missile_cooldown_counter (player w2) = 1"
      and t: "missile_cooldown_threshold (player w2) = missile_cooldown_threshold (player w)"
      by simp_all
    show ?thesis
      using c1 t T2 cooldown_missiles_iter [OF c1] cooldown_missiles_ready [OF c1] by simp
  qed
  show ?thesis
    using range mrange ticks mticks fire mfire by blast
qed

lemma demo_init:
  "Player_init demo_env (0, 9) 3 2 0 (Mask 0) [''x'' \<mapsto> 2, ''y'' \<mapsto> 2] 1 (Mask 1) (Sound 0)
     2 (Mask 2) (Sound 1) (Sound 2) (Sound 3) [3, 4, 5] = Inr demo_player"
  by (simp add: demo_player_def Player_init_def)

theorem cooldown_state_machine_witness:
  "1 \<le> BASE_CANNON_COOLDOWN demo_env \<and>
   Player_init demo_env (0, 9) 3 2 0 (Mask 0) [''x'' \<mapsto> 2, ''y'' \<mapsto> 2] 1 (Mask 1) (Sound 0)
     2 (Mask 2) (Sound 1) (Sound 2) (Sound 3) [3, 4, 5] = Inr demo_player \<and>
   player demo_world = demo_player \<and>
   calls demo_env [] demo_world = Inr demo_world \<and>
   cooldown_counter (player demo_world) = 0 \<and>
   cooldown_counter (cooldown_cannon (player demo_world)) = 0 \<and>
   (\<exists>w1. shoot demo_env demo_world = Inr w1 \<and>
      cooldown_counter (player w1) = 1 \<and>
      cooldown_counter ((cooldown_cannon ^^ 2) (player w1)) = 3 \<and>
      cooldown_counter ((cooldown_cannon ^^ 3) (player w1)) = 0) \<and>
   (\<exists>w2. fire_missle demo_env [] demo_world = Inr w2 \<and>
      missile_cooldown_counter (player w2) = 1 \<and>
      missile_cooldown_counter ((cooldown_missiles ^^ 2) (player w2)) = 3 \<and>
      missile_cooldown_counter ((cooldown_missiles ^^ 3) (player w2)) = 0) \<and>
   (\<exists>w3. calls demo_env [Shoot] demo_world = Inr w3 \<and>
      cooldown_counter (player w3) = 1 \<and>
      cooldown_counter (cooldown_cannon (player w3)) = 2) \<and>
   (\<exists>w4. calls demo_env [Shoot, Cooldown_cannon, Cooldown_cannon] demo_world = Inr w4 \<and>
      cooldown_counter (player w4) = 3 \<and>
      cooldown_counter (cooldown_cannon (player w4)) = 0)"
proof -
  have h1: "1 \<le> BASE_CANNON_COOLDOWN demo_env" by (simp add: demo_env_def)
  have h2: "Player_init demo_env (0, 9) 3 2 0 (Mask 0) [''x'' \<mapsto> 2, ''y'' \<mapsto> 2] 1 (Mask 1) (Sound 0)
     2 (Mask 2) (Sound 1) (Sound 2) (Sound 3) [3, 4, 5] = Inr demo_player"
    by (simp add: demo_player_def Player_init_def)
  have h3: "player demo_world = demo_player" by (simp add: demo_world_def)
  have h4: "calls demo_env [] demo_world = Inr demo_world" by simp
  have c0: "cooldown_counter (player demo_world) = 0" "missile_cooldown_counter (player demo_world) = 0"
    "0 < missile_count (player demo_world)" "cooldown_threshold (player demo_world) = 3"
    "missile_cooldown_threshold (player demo_world) = 3"
    by (simp_all add: demo_world_def demo_player_def Player_init_def demo_env_def)
  obtain w1 where s: "shoot demo_env demo_world = Inr w1"
    by (simp add: shoot_def demo_world_def demo_player_def Player_init_def demo_env_def Let_def)
  obtain w2 where f: "fire_missle demo_env [] demo_world = Inr w2"
    by (simp add: fire_missle_def demo_world_def demo_player_def Player_init_def demo_env_def Let_def)
  note inst = cooldown_state_machine [OF h1 h2 h3 h4, of w1 "[]" w2]
  have a: "cooldown_counter (cooldown_cannon (player demo_world)) = 0" using inst c0 by blast
  have b: "cooldown_counter (player w1) = 1 \<and>
      cooldown_counter ((cooldown_cannon ^^ 2) (player w1)) = 3 \<and>
      cooldown_counter ((cooldown_cannon ^^ 3) (player w1)) = 0"
  proof -
    from inst c0 s have x: "cooldown_counter (player w1) = 1"
      and y: "\<forall>j. int j < 3 \<longrightarrow> cooldown_counter ((cooldown_cannon ^^ j) (player w1)) = 1 + int j"
      and z: "cooldown_counter ((cooldown_cannon ^^ nat 3) (player w1)) = 0" by simp_all
    from y have "cooldown_counter ((cooldown_cannon ^^ 2) (player w1)) = 1 + int 2" by (rule allE [of _ 2]) simp
    moreover have "nat 3 = 3" by simp
    ultimately show ?thesis using x z by simp
  qed
  have c: "missile_cooldown_counter (player w2) = 1 \<and>
      missile_cooldown_counter ((cooldown_missiles ^^ 2) (player w2)) = 3 \<and>
      missile_cooldown_counter ((cooldown_missiles ^^ 3) (player w2)) = 0"
  proof -
    from inst c0 f have x: "missile_cooldown_counter (player w2) = 1"
      and y: "\<forall>j. int j < 3 \<longrightarrow> missile_cooldown_counter ((cooldown_missiles ^^ j) (player w2)) = 1 + int j"
      and z: "missile_cooldown_counter ((cooldown_missiles ^^ nat 3) (player w2)) = 0" by simp_all
    from y have "missile_cooldown_counter ((cooldown_missiles ^^ 2) (player w2)) = 1 + int 2" by (rule allE [of _ 2]) simp
    moreover have "nat 3 = 3" by simp
    ultimately show ?thesis using x z by simp
  qed
  obtain w3 where r3: "calls demo_env [Shoot] demo_world = Inr w3"
    and c3: "cooldown_counter (player w3) = 1" "cooldown_threshold (player w3) = 3"
    by (simp add: shoot_def play_def demo_world_def demo_player_def Player_init_def demo_env_def
          Let_def)
  have d: "cooldown_counter (cooldown_cannon (player w3)) = 2"
    using cooldown_state_machine [OF h1 h2 h3 r3] c3 by simp
  obtain w4 where r4: "calls demo_env [Shoot, Cooldown_cannon, Cooldown_cannon] demo_world = Inr w4"
    and c4: "cooldown_counter (player w4) = 3" "cooldown_threshold (player w4) = 3"
    by (simp add: shoot_def play_def cooldown_cannon_def demo_world_def demo_player_def
          Player_init_def demo_env_def Let_def)
  have e: "cooldown_counter (cooldown_cannon (player w4)) = 0"
    using cooldown_state_machine [OF h1 h2 h3 r4] c4 by simp
  show ?thesis using h1 h2 h3 h4 c0 a b c s f r3 c3 d r4 c4 e by blast
qed

section \<open>The glow window\<close>

text \<open>
  C8. In every state reached from a freshly constructed player, \<open>start_glow_effect\<close> sets
  \<open>glow_effect_end_time\<close> to the current time plus 200, whatever end time was scheduled
  before; two calls 50 ms apart leave the end time at the second call's time plus 200.
\<close>

theorem start_glow_effect_end_time:
  assumes "Player_init k a1 a2 a3 a4 a5 a6 a7 a8 a9 a10 a11 a12 a13 a14 a15 = Inr p0"
    and "player w0 = p0"
    and "calls k cs w0 = Inr w"
  shows "glow_effect_end_time (start_glow_effect t (player w)) = t + 200 \<and>
         glow_effect_end_time (start_glow_effect t ((player w)\<lparr>glow_effect_end_time := e\<rparr>)) = t + 200 \<and>
         glow_effect_end_time (start_glow_effect (t + 50) (start_glow_effect t (player w))) =
           (t + 50) + 200"
proof -
  have "player_inv k w0" using assms(1,2) by (rule player_inv_init)
  then have "player_inv k w" using assms(3) by (rule player_inv_calls)
  then have "glow_effect_duration (player w) = 200" by (simp add: player_inv_def)
  then show ?thesis by (simp add: start_glow_effect_def)
qed

theorem start_glow_effect_end_time_witness:
  "Player_init demo_env (0, 9) 3 2 0 (Mask 0) [''x'' \<mapsto> 2, ''y'' \<mapsto> 2] 1 (Mask 1) (Sound 0)
     2 (Mask 2) (Sound 1) (Sound 2) (Sound 3) [3, 4, 5] = Inr demo_player \<and>
   player demo_world = demo_player \<and>
   (\<exists>w. calls demo_env [Start_glow_effect 1000, Cooldown_cannon] demo_world = Inr w \<and>
      glow_effect_end_time (player w) = 1200 \<and>
      glow_effect_end_time (start_glow_effect 1050 (player w)) = 1250 \<and>
      glow_effect_end_time (start_glow_effect 1050 (start_glow_effect 1000 (player w))) = 1250)"
proof -
  have h2: "player demo_world = demo_player" by (simp add: demo_world_def)
  obtain w where r: "calls demo_env [Start_glow_effect 1000, Cooldown_cannon] demo_world = Inr w"
    and e: "glow_effect_end_time (player w) = 1200"
    by (simp add: start_glow_effect_def cooldown_cannon_def demo_world_def demo_player_def
          Player_init_def demo_env_def)
  have "glow_effect_end_time (start_glow_effect 1050 (player w)) = 1250"
    using start_glow_effect_end_time [OF demo_init h2 r, of 1050] by simp
  moreover have "glow_effect_end_time (start_glow_effect 1050 (start_glow_effect 1000 (player w))) = 1250"
    using start_glow_effect_end_time [OF demo_init h2 r, of 1000] by simp
  ultimately show ?thesis using demo_init h2 r e by blast
qed

section \<open>Firing\<close>

text \<open>
  C4. In every state reached from a freshly constructed player: with the cannon cooldown
  counter above 0, \<open>shoot\<close> changes nothing (no laser, no sound, the same world); with the
  counter at 0 (and the two offsets present in their dicts) it creates one new laser at
  (ship.x, ship.y - offset y) with the base laser damage as hit points and the base laser
  speed, appends it to \<open>lasers_fired\<close>, plays the laser sound and sets the counter to 1.
\<close>

theorem shoot_guarded:
  assumes "Player_init k a1 a2 a3 a4 a5 a6 a7 a8 a9 a10 a11 a12 a13 a14 a15 = Inr p0"
    and "player w0 = p0"
    and "calls k cs w0 = Inr w"
  shows "(0 < cooldown_counter (player w) \<longrightarrow> shoot k w = Inr w) \<and>
         (cooldown_counter (player w) = 0 \<and> offset (player w) ''y'' = Some oy \<and>
          IMG_OFFSETS k ''blueLaser'' = Some lo \<longrightarrow>
            next_ref w \<notin> set (lasers_fired (player w)) \<and>
            shoot k w =
              Inr (w\<lparr>actors := (actors w)
                        (next_ref w :=
                           \<lparr>pos = (fst (pos (player w)), snd (pos (player w)) - oy),
                            hp = BASE_LASER_DMG k, speed = BASE_LASER_SPEED k,
                            img = laser_img (player w), mask = laser_mask (player w),
                            offset = lo\<rparr>),
                     next_ref := Suc (next_ref w),
                     trace := trace w @ [Play (laser_sfx (player w))],
                     player := (player w)
                        \<lparr>lasers_fired := lasers_fired (player w) @ [next_ref w],
                         cooldown_counter := 1\<rparr>\<rparr>))"
proof -
  have "player_inv k w0" using assms(1,2) by (rule player_inv_init)
  then have inv: "player_inv k w" using assms(3) by (rule player_inv_calls)
  then have dmg: "laser_dmg (player w) = BASE_LASER_DMG k"
    and fresh: "next_ref w \<notin> set (lasers_fired (player w))"
    by (auto simp: player_inv_def)
  have "shoot k w = Inr w" if "0 < cooldown_counter (player w)"
    using that by (simp add: shoot_def)
  moreover have "shoot k w =
              Inr (w\<lparr>actors := (actors w)
                        (next_ref w :=
                           \<lparr>pos = (fst (pos (player w)), snd (pos (player w)) - oy),
                            hp = BASE_LASER_DMG k, speed = BASE_LASER_SPEED k,
                            img = laser_img (player w), mask = laser_mask (player w),
                            offset = lo\<rparr>),
                     next_ref := Suc (next_ref w),
                     trace := trace w @ [Play (laser_sfx (player w))],
                     player := (player w)
                        \<lparr>lasers_fired := lasers_fired (player w) @ [next_ref w],
                         cooldown_counter := 1\<rparr>\<rparr>)"
    if "cooldown_counter (player w) = 0" "offset (player w) ''y'' = Some oy"
      "IMG_OFFSETS k ''blueLaser'' = Some lo"
    using that dmg fresh by (simp add: shoot_def Let_def play_def group_add_def)
  ultimately show ?thesis using fresh by blast
qed

text \<open>
  C5. In every state reached from a freshly constructed player the missile count is not
  negative. With no missile left or the missile cooldown counter not 0, \<open>fire_missle\<close>
  changes nothing; with a missile left and the counter at 0 (and the two offsets present in
  their dicts) it creates one new missile whose hit-point field is 1, appends it to
  \<open>missiles_fired\<close>, plays the missile sound, takes one off the missile count and sets the
  counter to 1.
\<close>

theorem fire_missle_guarded:
  assumes "Player_init k a1 a2 a3 a4 a5 a6 a7 a8 a9 a10 a11 a12 a13 a14 a15 = Inr p0"
    and "player w0 = p0"
    and "calls k cs w0 = Inr w"
  shows "0 \<le> missile_count (player w) \<and>
         (missile_count (player w) = 0 \<or> missile_cooldown_counter (player w) \<noteq> 0 \<longrightarrow>
            fire_missle k targets w = Inr w) \<and>
         (0 < missile_count (player w) \<and> missile_cooldown_counter (player w) = 0 \<and>
          offset (player w) ''y'' = Some oy \<and> IMG_OFFSETS k ''blueMissile'' = Some mo \<longrightarrow>
            next_ref w \<notin> set (missiles_fired (player w)) \<and>
            fire_missle k targets w =
              Inr (w\<lparr>actors := (actors w)
                        (next_ref w :=
                           \<lparr>pos = (fst (pos (player w)), snd (pos (player w)) - oy),
                            hp = 1, speed = speed (player w),
                            img = missile_img (player w), mask = missile_mask (player w),
                            offset = mo\<rparr>),
                     missile_attrs := (missile_attrs w)
                        (next_ref w \<mapsto> (Missile_lock k (pos (player w)) targets (actors w), 90)),
                     next_ref := Suc (next_ref w),
                     trace := trace w @ [Play (missile_sfx (player w))],
                     player := (player w)
                        \<lparr>missiles_fired := missiles_fired (player w) @ [next_ref w],
                         missile_count := missile_count (player w) - 1,
                         missile_cooldown_counter := 1\<rparr>\<rparr>))"
proof -
  have "player_inv k w0" using assms(1,2) by (rule player_inv_init)
  then have inv: "player_inv k w" using assms(3) by (rule player_inv_calls)
  then have cnt: "0 \<le> missile_count (player w)"
    and fresh: "next_ref w \<notin> set (missiles_fired (player w))"
    by (auto simp: player_inv_def)
  have "fire_missle k targets w = Inr w"
    if "missile_count (player w) = 0 \<or> missile_cooldown_counter (player w) \<noteq> 0"
    using that by (auto simp: fire_missle_def)
  moreover have "fire_missle k targets w =
              Inr (w\<lparr>actors := (actors w)
                        (next_ref w :=
                           \<lparr>pos = (fst (pos (player w)), snd (pos (player w)) - oy),
                            hp = 1, speed = speed (player w),
                            img = missile_img (player w), mask = missile_mask (player w),
                            offset = mo\<rparr>),
                     missile_attrs := (missile_attrs w)
                        (next_ref w \<mapsto> (Missile_lock k (pos (player w)) targets (actors w), 90)),
                     next_ref := Suc (next_ref w),
                     trace := trace w @ [Play (missile_sfx (player w))],
                     player := (player w)
                        \<lparr>missiles_fired := missiles_fired (player w) @ [next_ref w],
                         missile_count := missile_count (player w) - 1,
                         missile_cooldown_counter := 1\<rparr>\<rparr>)"
    if "0 < missile_count (player w)" "missile_cooldown_counter (player w) = 0"
      "offset (player w) ''y'' = Some oy" "IMG_OFFSETS k ''blueMissile'' = Some mo"
    using that fresh by (simp add: fire_missle_def Let_def play_def group_add_def)
  ultimately show ?thesis using cnt fresh by blast
qed


theorem shoot_guarded_witness:
  "Player_init demo_env (0, 9) 3 2 0 (Mask 0) [''x'' \<mapsto> 2, ''y'' \<mapsto> 2] 1 (Mask 1) (Sound 0)
     2 (Mask 2) (Sound 1) (Sound 2) (Sound 3) [3, 4, 5] = Inr demo_player \<and>
   player demo_world = demo_player \<and>
   calls demo_env [] demo_world = Inr demo_world \<and>
   cooldown_counter (player demo_world) = 0 \<and>
   offset (player demo_world) ''y'' = Some 2 \<and>
   IMG_OFFSETS demo_env ''blueLaser'' = Some [''x'' \<mapsto> 1, ''y'' \<mapsto> 4] \<and>
   (\<exists>w'. shoot demo_env demo_world = Inr w' \<and>
      calls demo_env [Shoot] demo_world = Inr w' \<and>
      lasers_fired (player w') = [10] \<and>
      pos (actors w' 10) = (0, 7) \<and> hp (actors w' 10) = 1 \<and> speed (actors w' 10) = 10 \<and>
      trace w' = [Play (Sound 0)] \<and>
      cooldown_counter (player w') = 1 \<and>
      shoot demo_env w' = Inr w')"
proof -
  have h2: "player demo_world = demo_player" by (simp add: demo_world_def)
  have h3: "calls demo_env [] demo_world = Inr demo_world" by simp
  have c: "cooldown_counter (player demo_world) = 0"
    "offset (player demo_world) ''y'' = Some 2"
    "IMG_OFFSETS demo_env ''blueLaser'' = Some [''x'' \<mapsto> 1, ''y'' \<mapsto> 4]"
    by (simp_all add: demo_world_def demo_player_def Player_init_def demo_env_def)
  from shoot_guarded [OF demo_init h2 h3, where oy = 2 and lo = "[''x'' \<mapsto> 1, ''y'' \<mapsto> 4]"] c
  obtain w' where s: "shoot demo_env demo_world = Inr w'"
    and w': "w' = demo_world\<lparr>actors := (actors demo_world)
                        (next_ref demo_world :=
                           \<lparr>pos = (fst (pos (player demo_world)), snd (pos (player demo_world)) - 2),
                            hp = BASE_LASER_DMG demo_env, speed = BASE_LASER_SPEED demo_env,
                            img = laser_img (player demo_world), mask = laser_mask (player demo_world),
                            offset = [''x'' \<mapsto> 1, ''y'' \<mapsto> 4]\<rparr>),
                     next_ref := Suc (next_ref demo_world),
                     trace := trace demo_world @ [Play (laser_sfx (player demo_world))],
                     player := (player demo_world)
                        \<lparr>lasers_fired := lasers_fired (player demo_world) @ [next_ref demo_world],
                         cooldown_counter := 1\<rparr>\<rparr>"
    by blast
  have r: "calls demo_env [Shoot] demo_world = Inr w'" using s by simp
  have f: "lasers_fired (player w') = [10]"
    "pos (actors w' 10) = (0, 7)" "hp (actors w' 10) = 1" "speed (actors w' 10) = 10"
    "trace w' = [Play (Sound 0)]" "cooldown_counter (player w') = 1"
    by (simp_all add: w' demo_world_def demo_player_def Player_init_def demo_env_def)
  have "shoot demo_env w' = Inr w'"
    using shoot_guarded [OF demo_init h2 r] f(6) by simp
  then show ?thesis using demo_init h2 h3 c s r f by blast
qed

theorem fire_missle_guarded_witness:
  "Player_init demo_env (0, 9) 3 2 0 (Mask 0) [''x'' \<mapsto> 2, ''y'' \<mapsto> 2] 1 (Mask 1) (Sound 0)
     2 (Mask 2) (Sound 1) (Sound 2) (Sound 3) [3, 4, 5] = Inr demo_player \<and>
   player demo_world = demo_player \<and>
   calls demo_env [] demo_world = Inr demo_world \<and>
   missile_count (player demo_world) = 2 \<and>
   missile_cooldown_counter (player demo_world) = 0 \<and>
   offset (player demo_world) ''y'' = Some 2 \<and>
   IMG_OFFSETS demo_env ''blueMissile'' = Some [''x'' \<mapsto> 1, ''y'' \<mapsto> 6] \<and>
   (\<exists>w'. fire_missle demo_env [Some 1] demo_world = Inr w' \<and>
      calls demo_env [Fire_missle [Some 1]] demo_world = Inr w' \<and>
      missiles_fired (player w') = [10] \<and>
      pos (actors w' 10) = (0, 7) \<and> hp (actors w' 10) = 1 \<and>
      trace w' = [Play (Sound 3)] \<and>
      missile_count (player w') = 1 \<and>
      missile_cooldown_counter (player w') = 1 \<and>
      fire_missle demo_env [Some 1] w' = Inr w')"
proof -
  have h2: "player demo_world = demo_player" by (simp add: demo_world_def)
  have h3: "calls demo_env [] demo_world = Inr demo_world" by simp
  have c: "missile_count (player demo_world) = 2"
    "missile_cooldown_counter (player demo_world) = 0"
    "offset (player demo_world) ''y'' = Some 2"
    "IMG_OFFSETS demo_env ''blueMissile'' = Some [''x'' \<mapsto> 1, ''y'' \<mapsto> 6]"
    by (simp_all add: demo_world_def demo_player_def Player_init_def demo_env_def)
  from fire_missle_guarded [OF demo_init h2 h3, where targets = "[Some 1]" and oy = 2
      and mo = "[''x'' \<mapsto> 1, ''y'' \<mapsto> 6]"] c
  obtain w' where s: "fire_missle demo_env [Some 1] demo_world = Inr w'"
    and w': "w' = demo_world\<lparr>actors := (actors demo_world)
                        (next_ref demo_world :=
                           \<lparr>pos = (fst (pos (player demo_world)), snd (pos (player demo_world)) - 2),
                            hp = 1, speed = speed (player demo_world),
                            img = missile_img (player demo_world),
                            mask = missile_mask (player demo_world),
                            offset = [''x'' \<mapsto> 1, ''y'' \<mapsto> 6]\<rparr>),
                     missile_attrs := (missile_attrs demo_world)
                        (next_ref demo_world \<mapsto>
                           (Missile_lock demo_env (pos (player demo_world)) [Some 1]
                              (actors demo_world), 90)),
                     next_ref := Suc (next_ref demo_world),
                     trace := trace demo_world @ [Play (missile_sfx (player demo_world))],
                     player := (player demo_world)
                        \<lparr>missiles_fired := missiles_fired (player demo_world) @ [next_ref demo_world],
                         missile_count := missile_count (player demo_world) - 1,
                         missile_cooldown_counter := 1\<rparr>\<rparr>"
    by simp
  have r: "calls demo_env [Fire_missle [Some 1]] demo_world = Inr w'" using s by simp
  have f: "missiles_fired (player w') = [10]"
    "pos (actors w' 10) = (0, 7)" "hp (actors w' 10) = 1"
    "trace w' = [Play (Sound 3)]" "missile_count (player w') = 1"
    "missile_cooldown_counter (player w') = 1"
    by (simp_all add: w' demo_world_def demo_player_def Player_init_def demo_env_def)
  have "fire_missle demo_env [Some 1] w' = Inr w'"
    using fire_missle_guarded [OF demo_init h2 r, where targets = "[Some 1]"] f(6) by simp
  then show ?thesis using demo_init h2 h3 c s r f by blast
qed

section \<open>The idle animation\<close>

lemma restore_items_ok:
  "\<forall>i \<in> fst ` set items. - int (length frames) \<le> i \<and> i < int (length frames) \<Longrightarrow>
   \<exists>fr. restore_items items frames = Inr fr \<and> length fr = length frames"
proof (induction items arbitrary: frames)
  case Nil
  then show ?case by simp
next
  case (Cons it items)
  obtain i s where it: "it = (i, s)" by (cases it)
  from Cons.prems it have "- int (length frames) \<le> i \<and> i < int (length frames)" by simp
  then have "py_index (length frames) i \<noteq> None"
    by (simp add: py_index_def)
  then obtain j where j: "py_index (length frames) i = Some j"
    by blast
  have "\<forall>i \<in> fst ` set items. - int (length (frames[j := s])) \<le> i \<and> i < int (length (frames[j := s]))"
    using Cons.prems by simp
  from Cons.IH [OF this] show ?case
    by (simp add: it list_setitem_def j)
qed

lemma advance_frame_ok:
  assumes "idle_animation_frames p \<noteq> []"
  shows "advance_frame p =
     Inr (if animation_counter p mod 5 = 0
          then p\<lparr>current_frame := (current_frame p + 1) mod int (length (idle_animation_frames p)),
                 img := idle_animation_frames p !
                          nat ((current_frame p + 1) mod int (length (idle_animation_frames p)))\<rparr>
          else p)"
proof -
  have n: "0 < int (length (idle_animation_frames p))" using assms by simp
  have "py_index (length (idle_animation_frames p))
          ((current_frame p + 1) mod int (length (idle_animation_frames p))) =
        Some (nat ((current_frame p + 1) mod int (length (idle_animation_frames p))))"
    using n by (simp add: py_index_def)
  then show ?thesis using assms by (simp add: advance_frame_def list_getitem_def Let_def)
qed

lemma update_step:
  assumes "idle_animation_frames (player w) \<noteq> []" and "cached_in_range (player w)"
  shows "\<exists>w'. update_idle_animation now w = Inr w' \<and>
     animation_counter (player w') = animation_counter (player w) + 1 \<and>
     current_frame (player w') =
       (if animation_counter (player w) mod 5 = 0
        then (current_frame (player w) + 1) mod int (length (idle_animation_frames (player w)))
        else current_frame (player w)) \<and>
     img (player w') =
       (if animation_counter (player w) mod 5 = 0
        then idle_animation_frames (player w) !
               nat ((current_frame (player w) + 1) mod int (length (idle_animation_frames (player w))))
        else img (player w)) \<and>
     glow_effect_end_time (player w') = glow_effect_end_time (player w) \<and>
     length (idle_animation_frames (player w')) = length (idle_animation_frames (player w)) \<and>
     (glow_effect_end_time (player w) \<le> now \<longrightarrow> original_images (player w') = []) \<and>
     (glow_effect_end_time (player w) \<le> now \<and> original_images (player w) = [] \<longrightarrow>
        idle_animation_frames (player w') = idle_animation_frames (player w))"
proof (cases "now < glow_effect_end_time (player w)")
  case True
  then show ?thesis
    using assms(1)
    by (simp add: update_idle_animation_def advance_frame_ok apply_glow_def surface_copy_def
          surface_fill_add_def Let_def)
next
  case False
  from assms(2) obtain fr where
    fr: "restore_items (original_images (player w)) (idle_animation_frames (player w)) = Inr fr"
      "length fr = length (idle_animation_frames (player w))"
    using restore_items_ok [of "original_images (player w)" "idle_animation_frames (player w)"]
    by (auto simp: cached_in_range_def)
  have e: "original_images (player w) = [] \<Longrightarrow> fr = idle_animation_frames (player w)"
    using fr(1) by simp
  show ?thesis
    using False assms(1) fr e
    by (simp add: update_idle_animation_def advance_frame_ok restore_images_def Let_def)
qed

lemma frame_advances_0: "frame_advances ac 0 = 0"
  by (simp add: frame_advances_def)

lemma frame_advances_Suc:
  "frame_advances ac (Suc m) = (if ac mod 5 = 0 then 1 else 0) + frame_advances (ac + 1) m"
proof -
  have "(ac + 5) div 5 - (ac + 4) div 5 = (if ac mod 5 = 0 then 1 else 0)"
    by presburger
  then show ?thesis by (simp add: frame_advances_def algebra_simps)
qed

lemma frame_advances_nonneg: "0 \<le> frame_advances ac m"
  by (simp add: frame_advances_def zdiv_mono1)

lemma updates_no_glow:
  assumes "idle_animation_frames (player w) \<noteq> []" and "original_images (player w) = []"
    and "\<forall>t \<in> set ts. glow_effect_end_time (player w) \<le> t"
  shows "\<exists>w'. calls k (map Update_idle_animation ts) w = Inr w' \<and>
     animation_counter (player w') = animation_counter (player w) + int (length ts) \<and>
     current_frame (player w') =
       (if frame_advances (animation_counter (player w)) (length ts) = 0 then current_frame (player w)
        else (current_frame (player w) + frame_advances (animation_counter (player w)) (length ts))
               mod int (length (idle_animation_frames (player w)))) \<and>
     img (player w') =
       (if frame_advances (animation_counter (player w)) (length ts) = 0 then img (player w)
        else idle_animation_frames (player w) !
               nat ((current_frame (player w) + frame_advances (animation_counter (player w)) (length ts))
                      mod int (length (idle_animation_frames (player w))))) \<and>
     idle_animation_frames (player w') = idle_animation_frames (player w) \<and>
     original_images (player w') = [] \<and>
     glow_effect_end_time (player w') = glow_effect_end_time (player w)"
  using assms
proof (induction ts arbitrary: w)
  case Nil
  then show ?case by (simp add: frame_advances_0)
next
  case (Cons t ts)
  have c: "cached_in_range (player w)" using Cons.prems(2) by (simp add: cached_in_range_def)
  have g: "glow_effect_end_time (player w) \<le> t" using Cons.prems(3) by simp
  from update_step [OF Cons.prems(1) c, of t] g Cons.prems(2)
  obtain w1 where w1: "update_idle_animation t w = Inr w1"
    and ac1: "animation_counter (player w1) = animation_counter (player w) + 1"
    and cf1: "current_frame (player w1) =
       (if animation_counter (player w) mod 5 = 0
        then (current_frame (player w) + 1) mod int (length (idle_animation_frames (player w)))
        else current_frame (player w))"
    and img1: "img (player w1) =
       (if animation_counter (player w) mod 5 = 0
        then idle_animation_frames (player w) !
               nat ((current_frame (player w) + 1) mod int (length (idle_animation_frames (player w))))
        else img (player w))"
    and ge1: "glow_effect_end_time (player w1) = glow_effect_end_time (player w)"
    and oi1: "original_images (player w1) = []"
    and fr1: "idle_animation_frames (player w1) = idle_animation_frames (player w)"
    by auto
  have p1: "idle_animation_frames (player w1) \<noteq> []" using fr1 Cons.prems(1) by simp
  have p3: "\<forall>t \<in> set ts. glow_effect_end_time (player w1) \<le> t" using ge1 Cons.prems(3) by simp
  from Cons.IH [OF p1 oi1 p3]
  obtain w' where r: "calls k (map Update_idle_animation ts) w1 = Inr w'"
    and ac': "animation_counter (player w') = animation_counter (player w1) + int (length ts)"
    and cf': "current_frame (player w') =
       (if frame_advances (animation_counter (player w1)) (length ts) = 0 then current_frame (player w1)
        else (current_frame (player w1) + frame_advances (animation_counter (player w1)) (length ts))
               mod int (length (idle_animation_frames (player w1))))"
    and img': "img (player w') =
       (if frame_advances (animation_counter (player w1)) (length ts) = 0 then img (player w1)
        else idle_animation_frames (player w1) !
               nat ((current_frame (player w1) + frame_advances (animation_counter (player w1)) (length ts))
                      mod int (length (idle_animation_frames (player w1)))))"
    and fr': "idle_animation_frames (player w') = idle_animation_frames (player w1)"
    and oi': "original_images (player w') = []"
    and ge': "glow_effect_end_time (player w') = glow_effect_end_time (player w1)"
    by blast
  have run: "calls k (map Update_idle_animation (t # ts)) w = Inr w'"
    using w1 r by simp
  define a where "a = frame_advances (animation_counter (player w) + 1) (length ts)"
  have a0: "0 \<le> a" by (simp add: a_def frame_advances_nonneg)
  define A where "A = frame_advances (animation_counter (player w)) (Suc (length ts))"
  have adv: "A = (if animation_counter (player w) mod 5 = 0 then 1 else 0) + a"
    by (simp add: A_def frame_advances_Suc a_def)
  define n where "n = int (length (idle_animation_frames (player w)))"
  define c where "c = current_frame (player w)"
  have m: "((c + 1) mod n + a) mod n = (c + (1 + a)) mod n"
    by (simp add: mod_add_left_eq add.assoc)
  have cf1': "current_frame (player w1) = (if animation_counter (player w) mod 5 = 0 then (c + 1) mod n else c)"
    using cf1 by (simp add: n_def c_def)
  have cf'': "current_frame (player w') = (if a = 0 then current_frame (player w1)
        else (current_frame (player w1) + a) mod n)"
    using cf' by (simp add: ac1 fr1 a_def n_def)
  have cf: "current_frame (player w') = (if A = 0 then c else (c + A) mod n)"
  proof (cases "animation_counter (player w) mod 5 = 0")
    case True
    then have "A = 1 + a" using adv by simp
    then show ?thesis using True a0 m cf1' cf'' by auto
  next
    case False
    then have "A = a" using adv by simp
    then show ?thesis using False cf1' cf'' by auto
  qed
  have img1': "img (player w1) =
       (if animation_counter (player w) mod 5 = 0
        then idle_animation_frames (player w) ! nat ((c + 1) mod n) else img (player w))"
    using img1 by (simp add: n_def c_def)
  have img'': "img (player w') = (if a = 0 then img (player w1)
        else idle_animation_frames (player w) ! nat ((current_frame (player w1) + a) mod n))"
    using img' by (simp add: ac1 fr1 a_def n_def)
  have im: "img (player w') =
       (if A = 0 then img (player w) else idle_animation_frames (player w) ! nat ((c + A) mod n))"
  proof (cases "animation_counter (player w) mod 5 = 0")
    case True
    then have "A = 1 + a" using adv by simp
    then show ?thesis using True a0 m cf1' img1' img'' by auto
  next
    case False
    then have "A = a" using adv by simp
    then show ?thesis using False cf1' img1' img'' by auto
  qed
  show ?case
    using run cf im ac' ac1 fr' fr1 oi' ge' ge1
    by (simp add: n_def c_def A_def)
qed

text \<open>
  C6. Take a state with at least one idle frame whose cached indices address existing frames.
  Five consecutive calls of \<open>update_idle_animation\<close> with no glow active advance
  \<open>current_frame\<close> by exactly 1 modulo the number of frames and \<open>animation_counter\<close> by 5.
  Every single call succeeds and adds 1 to \<open>animation_counter\<close>; the call made with
  \<open>animation_counter mod 5 = 0\<close> is the one that advances the frame index and sets \<open>img\<close> to
  the frame at the new index, every other call leaves index and \<open>img\<close> alone.
\<close>

theorem idle_animation_five_calls:
  assumes "idle_animation_frames (player w) \<noteq> []"
    and "cached_in_range (player w)"
    and "length ts = 5"
    and "\<forall>t \<in> set ts. glow_effect_end_time (player w) \<le> t"
  shows "(\<exists>w'. calls k (map Update_idle_animation ts) w = Inr w' \<and>
            current_frame (player w') =
              (current_frame (player w) + 1) mod int (length (idle_animation_frames (player w))) \<and>
            animation_counter (player w') = animation_counter (player w) + 5) \<and>
         (\<exists>w1. update_idle_animation now w = Inr w1 \<and>
            animation_counter (player w1) = animation_counter (player w) + 1 \<and>
            (animation_counter (player w) mod 5 = 0 \<longrightarrow>
               current_frame (player w1) =
                 (current_frame (player w) + 1) mod int (length (idle_animation_frames (player w))) \<and>
               img (player w1) =
                 idle_animation_frames (player w) !
                   nat ((current_frame (player w) + 1) mod
                          int (length (idle_animation_frames (player w))))) \<and>
            (animation_counter (player w) mod 5 \<noteq> 0 \<longrightarrow>
               current_frame (player w1) = current_frame (player w) \<and>
               img (player w1) = img (player w)))"
proof -
  from assms(3) obtain t ts4 where ts: "ts = t # ts4" and l4: "length ts4 = 4"
    by (cases ts) auto
  have g: "glow_effect_end_time (player w) \<le> t" using assms(4) ts by simp
  from update_step [OF assms(1,2), of t] g
  obtain w1 where w1: "update_idle_animation t w = Inr w1"
    and ac1: "animation_counter (player w1) = animation_counter (player w) + 1"
    and cf1: "current_frame (player w1) =
       (if animation_counter (player w) mod 5 = 0
        then (current_frame (player w) + 1) mod int (length (idle_animation_frames (player w)))
        else current_frame (player w))"
    and ge1: "glow_effect_end_time (player w1) = glow_effect_end_time (player w)"
    and len1: "length (idle_animation_frames (player w1)) = length (idle_animation_frames (player w))"
    and oi1: "original_images (player w1) = []"
    by auto
  have p1: "idle_animation_frames (player w1) \<noteq> []" using len1 assms(1) by auto
  have p3: "\<forall>t \<in> set ts4. glow_effect_end_time (player w1) \<le> t" using ge1 assms(4) ts by simp
  from updates_no_glow [OF p1 oi1 p3, of k]
  obtain w' where r: "calls k (map Update_idle_animation ts4) w1 = Inr w'"
    and ac': "animation_counter (player w') = animation_counter (player w1) + int (length ts4)"
    and cf': "current_frame (player w') =
       (if frame_advances (animation_counter (player w1)) (length ts4) = 0 then current_frame (player w1)
        else (current_frame (player w1) + frame_advances (animation_counter (player w1)) (length ts4))
               mod int (length (idle_animation_frames (player w1))))"
    by blast
  have a: "frame_advances (animation_counter (player w) + 1) 4 =
      (if animation_counter (player w) mod 5 = 0 then 0 else 1)"
    unfolding frame_advances_def by simp presburger
  have run: "calls k (map Update_idle_animation ts) w = Inr w'" using w1 r ts by simp
  have "current_frame (player w') =
      (current_frame (player w) + 1) mod int (length (idle_animation_frames (player w)))"
    using cf' cf1 by (simp add: ac1 l4 a len1)
  moreover have "animation_counter (player w') = animation_counter (player w) + 5"
    using ac' ac1 l4 by simp
  ultimately have five: "\<exists>w'. calls k (map Update_idle_animation ts) w = Inr w' \<and>
            current_frame (player w') =
              (current_frame (player w) + 1) mod int (length (idle_animation_frames (player w))) \<and>
            animation_counter (player w') = animation_counter (player w) + 5"
    using run by blast
  from update_step [OF assms(1,2), of now]
  have one: "\<exists>w1. update_idle_animation now w = Inr w1 \<and>
            animation_counter (player w1) = animation_counter (player w) + 1 \<and>
            (animation_counter (player w) mod 5 = 0 \<longrightarrow>
               current_frame (player w1) =
                 (current_frame (player w) + 1) mod int (length (idle_animation_frames (player w))) \<and>
               img (player w1) =
                 idle_animation_frames (player w) !
                   nat ((current_frame (player w) + 1) mod
                          int (length (idle_animation_frames (player w))))) \<and>
            (animation_counter (player w) mod 5 \<noteq> 0 \<longrightarrow>
               current_frame (player w1) = current_frame (player w) \<and>
               img (player w1) = img (player w))"
    by auto
  show ?thesis using five one by (rule conjI)
qed

text \<open>
  C10. On a freshly constructed player with at least one frame, and a clock that is not
  negative, the calls of \<open>update_idle_animation\<close> all succeed, and after \<open>m\<close> of them the
  frame index is \<open>((m + 4) div 5) mod n\<close> and, for \<open>m > 0\<close>, \<open>img\<close> is the frame at that
  index: the very first call moves to frame \<open>1 mod n\<close>, the advances happen on the calls 1,
  6, 11, ..., and the index is 0 again first after call \<open>5 n - 4\<close>, a full cycle later.
\<close>

theorem fresh_player_frame_schedule:
  assumes "Player_init k a1 a2 a3 a4 a5 a6 a7 a8 a9 a10 a11 a12 a13 a14 frames = Inr p0"
    and "player w0 = p0"
    and "frames \<noteq> []"
    and "\<forall>t \<in> set ts. 0 \<le> t"
  shows "\<exists>w. calls k (map Update_idle_animation ts) w0 = Inr w \<and>
           animation_counter (player w) = int (length ts) \<and>
           current_frame (player w) = ((int (length ts) + 4) div 5) mod int (length frames) \<and>
           idle_animation_frames (player w) = frames \<and>
           (ts \<noteq> [] \<longrightarrow> img (player w) = frames ! nat (current_frame (player w))) \<and>
           (length ts = 1 \<longrightarrow> current_frame (player w) = 1 mod int (length frames)) \<and>
           (1 \<le> length ts \<and> length ts < 5 * length frames - 4 \<longrightarrow> current_frame (player w) \<noteq> 0) \<and>
           (length ts = 5 * length frames - 4 \<longrightarrow> current_frame (player w) = 0)"
proof -
  have f0: "idle_animation_frames (player w0) = frames" "original_images (player w0) = []"
    "glow_effect_end_time (player w0) = 0" "animation_counter (player w0) = 0"
    "current_frame (player w0) = 0"
    using assms(1,2) by (auto simp: Player_init_def)
  have p1: "idle_animation_frames (player w0) \<noteq> []" using f0 assms(3) by simp
  have p3: "\<forall>t \<in> set ts. glow_effect_end_time (player w0) \<le> t" using f0 assms(4) by simp
  define A where "A = (int (length ts) + 4) div 5"
  define n where "n = int (length frames)"
  have n: "0 < n" using assms(3) by (simp add: n_def)
  have fa: "frame_advances 0 (length ts) = A" by (simp add: frame_advances_def A_def)
  have A0: "0 \<le> A" by (simp add: A_def)
  have A1: "ts \<noteq> [] \<Longrightarrow> 1 \<le> A"
  proof -
    assume "ts \<noteq> []"
    then have "1 \<le> int (length ts)" by (cases ts) auto
    then show ?thesis unfolding A_def by linarith
  qed
  from updates_no_glow [OF p1 f0(2) p3, of k]
  obtain w where r: "calls k (map Update_idle_animation ts) w0 = Inr w"
    and ac: "animation_counter (player w) = int (length ts)"
    and cf: "current_frame (player w) = (if A = 0 then 0 else A mod n)"
    and im: "img (player w) = (if A = 0 then img (player w0) else frames ! nat (A mod n))"
    and fr: "idle_animation_frames (player w) = frames"
    by (auto simp: f0 fa n_def)
  have cf2: "current_frame (player w) = A mod n" using cf by simp
  have im2: "ts \<noteq> [] \<Longrightarrow> img (player w) = frames ! nat (current_frame (player w))"
    using im cf2 A1 by auto
  have one: "length ts = 1 \<Longrightarrow> current_frame (player w) = 1 mod n"
    using cf2 by (simp add: A_def)
  have before: "1 \<le> length ts \<and> length ts < 5 * length frames - 4 \<Longrightarrow> current_frame (player w) \<noteq> 0"
  proof -
    assume h: "1 \<le> length ts \<and> length ts < 5 * length frames - 4"
    then have "1 \<le> A" and "A < n" unfolding A_def n_def by linarith+
    then show ?thesis using cf2 by simp
  qed
  have full: "length ts = 5 * length frames - 4 \<Longrightarrow> current_frame (player w) = 0"
  proof -
    assume h: "length ts = 5 * length frames - 4"
    have "1 \<le> length frames" using assms(3) by (cases frames) auto
    then have "int (length ts) + 4 = 5 * n" using h by (simp add: n_def)
    then have "A = n" by (simp add: A_def)
    then show ?thesis using cf2 by simp
  qed
  show ?thesis
    using r ac cf2 fr im2 one before full unfolding A_def n_def by blast
qed

text \<open>
  C9, as amended. Constructing a Player with an empty idle-animation frame sequence does not
  fail: the constructor returns a player that holds the empty sequence, with
  \<open>animation_counter\<close> at 0. The failure is deferred: on that player the first
  \<open>update_idle_animation\<close> call, at any clock value and in any surrounding world, raises
  ZeroDivisionError in its frame-advance step, the modulus over the frame count.
\<close>

theorem Player_init_no_frames_deferred_failure:
  "\<exists>p. Player_init k a1 a2 a3 a4 a5 a6 a7 a8 a9 a10 a11 a12 a13 a14 [] = Inr p \<and>
       idle_animation_frames p = [] \<and>
       animation_counter p = 0 \<and>
       advance_frame p = Inl ZeroDivisionError \<and>
       (\<forall>now w. update_idle_animation now (w\<lparr>player := p\<rparr>) = Inl ZeroDivisionError)"
  by (simp add: Player_init_def update_idle_animation_def advance_frame_def)

text \<open>
  C9 as stated fails: construction with no frames succeeds, and the first animation update
  raises.
\<close>

theorem Player_init_no_frames_counterexample:
  "Player_init demo_env (0, 9) 3 2 0 (Mask 0) [''x'' \<mapsto> 2, ''y'' \<mapsto> 2] 1 (Mask 1) (Sound 0)
     2 (Mask 2) (Sound 1) (Sound 2) (Sound 3) [] = Inr (demo_player\<lparr>idle_animation_frames := []\<rparr>) \<and>
   update_idle_animation 0 (demo_world\<lparr>player := demo_player\<lparr>idle_animation_frames := []\<rparr>\<rparr>) =
     Inl ZeroDivisionError"
  by (simp add: Player_init_def demo_player_def update_idle_animation_def advance_frame_def)


theorem idle_animation_five_calls_witness:
  "\<exists>w. calls demo_env [Update_idle_animation 10, Start_glow_effect 20, Update_idle_animation 30]
          demo_world = Inr w \<and>
        idle_animation_frames (player w) = [3, 4, 5] \<and>
        original_images (player w) = [(1, 6)] \<and>
        cached_in_range (player w) \<and>
        glow_effect_end_time (player w) = 220 \<and>
        current_frame (player w) = 1 \<and>
        animation_counter (player w) = 2 \<and>
        (\<exists>w'. calls demo_env (map Update_idle_animation [230, 246, 263, 280, 296]) w = Inr w' \<and>
           current_frame (player w') = 2 \<and> animation_counter (player w') = 7) \<and>
        (\<exists>w1. update_idle_animation 230 w = Inr w1 \<and> animation_counter (player w1) = 3 \<and>
           current_frame (player w1) = 1 \<and> img (player w1) = img (player w))"
proof -
  obtain w where r: "calls demo_env [Update_idle_animation 10, Start_glow_effect 20,
        Update_idle_animation 30] demo_world = Inr w"
    and f: "idle_animation_frames (player w) = [3, 4, 5]" "original_images (player w) = [(1, 6)]"
      "glow_effect_end_time (player w) = 220" "current_frame (player w) = 1"
      "animation_counter (player w) = 2"
    by (simp add: update_idle_animation_def advance_frame_def list_getitem_def py_index_def
          apply_glow_def surface_copy_def surface_fill_add_def restore_images_def
          start_glow_effect_def Let_def demo_world_def demo_player_def Player_init_def)
  have h1: "idle_animation_frames (player w) \<noteq> []" using f by simp
  have h2: "cached_in_range (player w)" using f by (simp add: cached_in_range_def)
  have h3: "length [230, 246, 263, 280, 296 :: int] = 5" by simp
  have h4: "\<forall>t \<in> set [230, 246, 263, 280, 296]. glow_effect_end_time (player w) \<le> t"
    using f by simp
  from idle_animation_five_calls [OF h1 h2 h3 h4, of demo_env 230] f
  have "(\<exists>w'. calls demo_env (map Update_idle_animation [230, 246, 263, 280, 296]) w = Inr w' \<and>
           current_frame (player w') = 2 \<and> animation_counter (player w') = 7) \<and>
        (\<exists>w1. update_idle_animation 230 w = Inr w1 \<and> animation_counter (player w1) = 3 \<and>
           current_frame (player w1) = 1 \<and> img (player w1) = img (player w))"
    by simp
  then show ?thesis using r f h2 by blast
qed

theorem fresh_player_frame_schedule_witness:
  "Player_init demo_env (0, 9) 3 2 0 (Mask 0) [''x'' \<mapsto> 2, ''y'' \<mapsto> 2] 1 (Mask 1) (Sound 0)
     2 (Mask 2) (Sound 1) (Sound 2) (Sound 3) [3, 4, 5] = Inr demo_player \<and>
   player demo_world = demo_player \<and>
   (\<exists>w. calls demo_env (map Update_idle_animation [7]) demo_world = Inr w \<and>
      animation_counter (player w) = 1 \<and> current_frame (player w) = 1 \<and> img (player w) = 4) \<and>
   (\<exists>w. calls demo_env (map Update_idle_animation [0, 16, 33, 50, 66]) demo_world = Inr w \<and>
      animation_counter (player w) = 5 \<and> current_frame (player w) = 1) \<and>
   (\<exists>w. calls demo_env (map Update_idle_animation [0, 16, 33, 50, 66, 83]) demo_world = Inr w \<and>
      animation_counter (player w) = 6 \<and> current_frame (player w) = 2 \<and> img (player w) = 5) \<and>
   (\<exists>w. calls demo_env (map Update_idle_animation [0, 16, 33, 50, 66, 83, 100, 116, 133, 150, 166])
           demo_world = Inr w \<and>
      animation_counter (player w) = 11 \<and> current_frame (player w) = 0 \<and> img (player w) = 3)"
proof -
  have h2: "player demo_world = demo_player" by (simp add: demo_world_def)
  have h3: "[3, 4, 5 :: nat] \<noteq> []" by simp
  have a: "\<exists>w. calls demo_env (map Update_idle_animation [7]) demo_world = Inr w \<and>
      animation_counter (player w) = 1 \<and> current_frame (player w) = 1 \<and> img (player w) = 4"
    using fresh_player_frame_schedule [OF demo_init h2 h3, of "[7]"] by auto
  have b: "\<exists>w. calls demo_env (map Update_idle_animation [0, 16, 33, 50, 66]) demo_world = Inr w \<and>
      animation_counter (player w) = 5 \<and> current_frame (player w) = 1"
    using fresh_player_frame_schedule [OF demo_init h2 h3, of "[0, 16, 33, 50, 66]"] by auto
  have c: "\<exists>w. calls demo_env (map Update_idle_animation [0, 16, 33, 50, 66, 83]) demo_world = Inr w \<and>
      animation_counter (player w) = 6 \<and> current_frame (player w) = 2 \<and> img (player w) = 5"
    using fresh_player_frame_schedule [OF demo_init h2 h3, of "[0, 16, 33, 50, 66, 83]"] by auto
  have d: "\<exists>w. calls demo_env (map Update_idle_animation [0, 16, 33, 50, 66, 83, 100, 116, 133, 150, 166])
           demo_world = Inr w \<and>
      animation_counter (player w) = 11 \<and> current_frame (player w) = 0 \<and> img (player w) = 3"
    using fresh_player_frame_schedule [OF demo_init h2 h3,
        of "[0, 16, 33, 50, 66, 83, 100, 116, 133, 150, 166]"] by auto
  show ?thesis using demo_init h2 a b c d by blast
qed

section \<open>The glow effect and the frame images\<close>

text \<open>
  C7. The player has three frames and runs \<open>update_idle_animation\<close> at 10 ms (frame 1
  becomes the image), starts a glow at 20 ms, updates at 30 ms (frame 1 is copied to the cache
  and filled yellow) and at 230 ms (glow over: the copy is stored back as frame 1, the cache
  is cleared, \<open>img\<close> is still the yellow surface), starts a second glow at 240 ms, updates at
  250 ms (the frame index is still 1 and not cached: the yellow \<open>img\<close> is copied to the
  cache) and at 450 ms (glow over: the yellow copy is stored back as frame 1). Then no glow is
  active and the cache is empty, but frame 1 is no longer the image it was: its pixel is
  (255, 255, 30, 255) instead of (40, 20, 30, 255).
\<close>

theorem glow_twice_keeps_glowed_frame:
  "\<exists>w. calls demo_env
          [Update_idle_animation 10, Start_glow_effect 20, Update_idle_animation 30,
           Update_idle_animation 230, Start_glow_effect 240, Update_idle_animation 250,
           Update_idle_animation 450] demo_world = Inr w \<and>
        map (surfaces demo_world) (idle_animation_frames (player demo_world)) =
          [[(30, 20, 30, 255)], [(40, 20, 30, 255)], [(50, 20, 30, 255)]] \<and>
        glow_effect_end_time (player w) = 440 \<and>
        original_images (player w) = [] \<and>
        map (surfaces w) (idle_animation_frames (player w)) =
          [[(30, 20, 30, 255)], [(255, 255, 30, 255)], [(50, 20, 30, 255)]]"
  by (simp add: update_idle_animation_def advance_frame_def list_getitem_def list_setitem_def
        py_index_def apply_glow_def surface_copy_def surface_fill_add_def restore_images_def
        start_glow_effect_def blend_add_def yellow_def Let_def demo_world_def demo_player_def
        Player_init_def)

section \<open>Resolving hits\<close>

lemma kills_of_append: "kills_of (xs @ ys) = kills_of xs @ kills_of ys"
  by (induction xs rule: kills_of.induct) simp_all

lemma sounds_of_append: "sounds_of (xs @ ys) = sounds_of xs @ sounds_of ys"
  by (induction xs rule: sounds_of.induct) simp_all

lemma set_candidates: "set (candidates objs) = {r. Some r \<in> set objs}"
  by (induction objs rule: candidates.induct) auto

lemma count_candidates: "count_list (candidates objs) r = count_list objs (Some r)"
  by (induction objs rule: candidates.induct) auto

lemma count_list_distinct: "distinct xs \<Longrightarrow> x \<in> set xs \<Longrightarrow> count_list xs x = 1"
  by (induction xs) auto

lemma laser_hit_actors:
  "actors (snd (laser_hit l obj st)) =
     (actors (snd st))(obj := (actors (snd st) obj)\<lparr>hp := hp (actors (snd st) obj) - 1\<rparr>)"
  by (cases st) (simp add: laser_hit_def Let_def play_def kill_def)

lemma laser_hit_kills:
  "fst (laser_hit l obj st) =
     fst st @ (if hp (actors (snd st) obj) - 1 \<le> 0 then [obj] else [])"
  by (cases st) (simp add: laser_hit_def Let_def play_def kill_def)

lemma laser_hit_trace:
  "trace (snd (laser_hit l obj st)) =
     trace (snd st) @ Play (laser_hit_sfx (player (snd st))) #
       (if hp (actors (snd st) obj) - 1 \<le> 0
        then [Kill obj, Play (explosion_sfx (player (snd st)))] else [])"
  by (cases st) (simp add: laser_hit_def Let_def play_def kill_def)

lemma laser_hit_collides:
  "collides k (snd (laser_hit l obj st)) a b = collides k (snd st) a b"
  by (simp add: collides_def laser_hit_actors shape_def)

lemma resolve_hits_loop_actors:
  "actors (snd (resolve_hits_loop k l objs st)) r =
     (actors (snd st) r)
       \<lparr>hp := hp (actors (snd st) r) -
                (if collides k (snd st) l r then int (count_list objs (Some r)) else 0)\<rparr>"
proof (induction k l objs st rule: resolve_hits_loop.induct)
  case (1 k laser st)
  then show ?case by simp
next
  case (2 k laser objs st)
  then show ?case by simp
next
  case (3 k laser obj objs st)
  show ?case
  proof (cases "collides k (snd st) laser obj")
    case True
    then have "resolve_hits_loop k laser (Some obj # objs) st =
        resolve_hits_loop k laser objs (laser_hit laser obj st)"
      by (simp add: collides_def)
    with 3(1) True show ?thesis
      by (auto simp: collides_def [symmetric] laser_hit_collides laser_hit_actors)
  next
    case False
    then have "resolve_hits_loop k laser (Some obj # objs) st = resolve_hits_loop k laser objs st"
      by (simp add: collides_def)
    with 3(2) False show ?thesis
      by (auto simp: collides_def [symmetric])
  qed
qed

lemma group_remove_idem: "group_remove r (group_remove r g) = group_remove r g"
  by (simp add: group_remove_def)

lemma resolve_hits_loop_collides:
  "collides k (snd (resolve_hits_loop k l objs st)) a b = collides k (snd st) a b"
  by (simp add: collides_def resolve_hits_loop_actors shape_def)

lemma resolve_hits_loop_lasers:
  "lasers_fired (player (snd (resolve_hits_loop k l objs st))) =
     (if \<exists>r. Some r \<in> set objs \<and> collides k (snd st) l r
      then group_remove l (lasers_fired (player (snd st)))
      else lasers_fired (player (snd st)))"
proof (induction k l objs st rule: resolve_hits_loop.induct)
  case (1 k laser st)
  then show ?case by simp
next
  case (2 k laser objs st)
  then show ?case by simp
next
  case (3 k laser obj objs st)
  show ?case
  proof (cases "collides k (snd st) laser obj")
    case True
    then have "resolve_hits_loop k laser (Some obj # objs) st =
        resolve_hits_loop k laser objs (laser_hit laser obj st)"
      by (simp add: collides_def)
    with 3(1) True show ?thesis
      by (auto simp: collides_def [symmetric] laser_hit_collides laser_hit_frame group_remove_idem)
  next
    case False
    then have "resolve_hits_loop k laser (Some obj # objs) st = resolve_hits_loop k laser objs st"
      by (simp add: collides_def)
    with 3(2) False show ?thesis
      by (auto simp: collides_def [symmetric])
  qed
qed

lemma resolve_hits_loop_kills_trace:
  "\<exists>ks. fst (resolve_hits_loop k l objs st) = fst st @ ks \<and>
        kills_of (trace (snd (resolve_hits_loop k l objs st))) = kills_of (trace (snd st)) @ ks"
proof (induction k l objs st rule: resolve_hits_loop.induct)
  case (1 k laser st)
  then show ?case by simp
next
  case (2 k laser objs st)
  then show ?case by simp
next
  case (3 k laser obj objs st)
  show ?case
  proof (cases "collides k (snd st) laser obj")
    case True
    then have e: "resolve_hits_loop k laser (Some obj # objs) st =
        resolve_hits_loop k laser objs (laser_hit laser obj st)"
      by (simp add: collides_def)
    from 3(1) True obtain ks where
      "fst (resolve_hits_loop k laser objs (laser_hit laser obj st)) = fst (laser_hit laser obj st) @ ks"
      "kills_of (trace (snd (resolve_hits_loop k laser objs (laser_hit laser obj st)))) =
         kills_of (trace (snd (laser_hit laser obj st))) @ ks"
      by (auto simp: collides_def)
    then show ?thesis
      unfolding e by (simp add: laser_hit_kills laser_hit_trace kills_of_append)
  next
    case False
    then have "resolve_hits_loop k laser (Some obj # objs) st = resolve_hits_loop k laser objs st"
      by (simp add: collides_def)
    with 3(2) False show ?thesis
      by (auto simp: collides_def [symmetric])
  qed
qed

lemma resolve_hits_loop_kills_distinct:
  "distinct (candidates objs) \<Longrightarrow>
   fst (resolve_hits_loop k l objs st) =
     fst st @ filter (\<lambda>r. collides k (snd st) l r \<and> hp (actors (snd st) r) - 1 \<le> 0)
                (candidates objs)"
proof (induction k l objs st rule: resolve_hits_loop.induct)
  case (1 k laser st)
  then show ?case by simp
next
  case (2 k laser objs st)
  then show ?case by simp
next
  case (3 k laser obj objs st)
  from 3(3) have d: "distinct (candidates objs)" and nin: "obj \<notin> set (candidates objs)" by simp_all
  show ?case
  proof (cases "collides k (snd st) laser obj")
    case True
    then have e: "resolve_hits_loop k laser (Some obj # objs) st =
        resolve_hits_loop k laser objs (laser_hit laser obj st)"
      by (simp add: collides_def)
    have c: "resolve_collision k (shape (actors (snd st) laser)) (shape (actors (snd st) obj))"
      using True by (simp add: collides_def)
    have same: "filter (\<lambda>r. collides k (snd (laser_hit laser obj st)) laser r \<and>
                     hp (actors (snd (laser_hit laser obj st)) r) - 1 \<le> 0) (candidates objs) =
          filter (\<lambda>r. collides k (snd st) laser r \<and> hp (actors (snd st) r) - 1 \<le> 0)
            (candidates objs)"
      using nin by (intro filter_cong) (auto simp: laser_hit_collides laser_hit_actors)
    show ?thesis
      unfolding e using 3(1) [OF c d] True same
      by (simp add: laser_hit_kills)
  next
    case False
    then have e: "resolve_hits_loop k laser (Some obj # objs) st = resolve_hits_loop k laser objs st"
      by (simp add: collides_def)
    have c: "\<not> resolve_collision k (shape (actors (snd st) laser)) (shape (actors (snd st) obj))"
      using False by (simp add: collides_def)
    show ?thesis
      unfolding e using 3(2) [OF c d] False by simp
  qed
qed

lemma resolve_hits_loop_kills_set:
  "set (fst (resolve_hits_loop k l objs st)) =
     set (fst st) \<union>
     {r. Some r \<in> set objs \<and> collides k (snd st) l r \<and>
         hp (actors (snd (resolve_hits_loop k l objs st)) r) \<le> 0}"
proof (induction k l objs st rule: resolve_hits_loop.induct)
  case (1 k laser st)
  then show ?case by simp
next
  case (2 k laser objs st)
  then show ?case by simp
next
  case (3 k laser obj objs st)
  show ?case
  proof (cases "collides k (snd st) laser obj")
    case True
    define st1 where "st1 = laser_hit laser obj st"
    define res where "res = resolve_hits_loop k laser objs st1"
    have e: "resolve_hits_loop k laser (Some obj # objs) st = res"
      using True by (simp add: collides_def res_def st1_def)
    have c: "resolve_collision k (shape (actors (snd st) laser)) (shape (actors (snd st) obj))"
      using True by (simp add: collides_def)
    have ih: "set (fst res) = set (fst st1) \<union>
        {r. Some r \<in> set objs \<and> collides k (snd st) laser r \<and> hp (actors (snd res) r) \<le> 0}"
      using 3(1) [OF c] by (simp add: res_def st1_def laser_hit_collides)
    have k1: "set (fst st1) = set (fst st) \<union> (if hp (actors (snd st) obj) - 1 \<le> 0 then {obj} else {})"
      by (simp add: st1_def laser_hit_kills)
    have hpobj: "hp (actors (snd res) obj) =
        hp (actors (snd st) obj) - 1 - int (count_list objs (Some obj))"
      using True
      by (simp add: res_def st1_def resolve_hits_loop_actors laser_hit_collides laser_hit_actors)
    have in_objs: "Some obj \<in> set objs" if "0 < count_list objs (Some obj)"
      using that by (cases "Some obj \<in> set objs") (simp_all add: count_list_0_iff)
    define P where "P = (\<lambda>r. collides k (snd st) laser r \<and> hp (actors (snd res) r) \<le> 0)"
    have split: "{r. Some r \<in> set (Some obj # objs) \<and> P r} =
        (if P obj then {obj} else {}) \<union> {r. Some r \<in> set objs \<and> P r}"
      by auto
    have ih': "set (fst res) = set (fst st1) \<union> {r. Some r \<in> set objs \<and> P r}"
      using ih by (simp add: P_def)
    have goal: "set (fst res) = set (fst st) \<union> {r. Some r \<in> set (Some obj # objs) \<and> P r}"
    proof (cases "hp (actors (snd st) obj) - 1 \<le> 0")
      case dead: True
      have "hp (actors (snd res) obj) \<le> 0" using hpobj dead by simp
      then have "P obj" using True by (simp add: P_def)
      moreover have "set (fst st1) = set (fst st) \<union> {obj}" using k1 dead by simp
      ultimately show ?thesis unfolding split ih' by auto
    next
      case alive: False
      have s1: "set (fst st1) = set (fst st)" using k1 alive by simp
      show ?thesis
      proof (cases "P obj")
        case True
        then have "hp (actors (snd res) obj) \<le> 0" by (simp add: P_def)
        with hpobj alive have "0 < int (count_list objs (Some obj))" by linarith
        then have "Some obj \<in> set objs" using in_objs by simp
        then have "obj \<in> {r. Some r \<in> set objs \<and> P r}" using True by simp
        then show ?thesis unfolding split ih' s1 using True by auto
      next
        case False
        then show ?thesis unfolding split ih' s1 by simp
      qed
    qed
    show ?thesis unfolding e using goal by (simp add: P_def)
  next
    case False
    then have e: "resolve_hits_loop k laser (Some obj # objs) st = resolve_hits_loop k laser objs st"
      by (simp add: collides_def)
    have c: "\<not> resolve_collision k (shape (actors (snd st) laser)) (shape (actors (snd st) obj))"
      using False by (simp add: collides_def)
    show ?thesis
      unfolding e using 3(2) [OF c] False by auto
  qed
qed

text \<open>
  C1. \<open>resolve_hits\<close>, for every laser, candidate list and world. Every entry of the list
  that is not \<open>None\<close> and collides with the laser takes exactly one hit point off its object
  and changes nothing else of it, whether or not the laser is still in \<open>lasers_fired\<close>; if
  some entry collides the laser is no longer in \<open>lasers_fired\<close> afterwards, otherwise the
  group is unchanged; the returned list holds exactly the colliding candidates whose hit points
  are at most 0 afterwards (in the order of the list and once each when no object is listed
  twice), and the removal hook has been invoked on exactly these, in this order. A single
  colliding target with 1 hit point ends at 0, is killed and is returned once; with 2 hit
  points it ends at 1, is not returned, and the laser is removed all the same.
\<close>

theorem resolve_hits_correct:
  assumes "resolve_hits k laser objs w = (kills, w')"
  shows "(\<forall>r. actors w' r =
              (actors w r)\<lparr>hp := hp (actors w r) -
                 (if collides k w laser r then int (count_list objs (Some r)) else 0)\<rparr>) \<and>
         ((\<exists>r. Some r \<in> set objs \<and> collides k w laser r) \<longrightarrow>
            laser \<notin> set (lasers_fired (player w'))) \<and>
         (\<not> (\<exists>r. Some r \<in> set objs \<and> collides k w laser r) \<longrightarrow>
            lasers_fired (player w') = lasers_fired (player w)) \<and>
         set kills = {r. Some r \<in> set objs \<and> collides k w laser r \<and> hp (actors w' r) \<le> 0} \<and>
         (distinct (candidates objs) \<longrightarrow>
            kills = filter (\<lambda>r. collides k w laser r \<and> hp (actors w' r) \<le> 0) (candidates objs)) \<and>
         kills_of (trace w') = kills_of (trace w) @ kills \<and>
         (objs = [Some t] \<and> collides k w laser t \<and> hp (actors w t) = 1 \<longrightarrow>
            kills = [t] \<and> hp (actors w' t) = 0 \<and> kills_of (trace w') = kills_of (trace w) @ [t] \<and>
            laser \<notin> set (lasers_fired (player w'))) \<and>
         (objs = [Some t] \<and> collides k w laser t \<and> hp (actors w t) = 2 \<longrightarrow>
            kills = [] \<and> hp (actors w' t) = 1 \<and> kills_of (trace w') = kills_of (trace w) \<and>
            laser \<notin> set (lasers_fired (player w')))"
proof -
  have k: "kills = fst (resolve_hits_loop k laser objs ([], w))"
    and w': "w' = snd (resolve_hits_loop k laser objs ([], w))"
    using assms by (simp_all add: resolve_hits_def)
  have A: "\<forall>r. actors w' r =
              (actors w r)\<lparr>hp := hp (actors w r) -
                 (if collides k w laser r then int (count_list objs (Some r)) else 0)\<rparr>"
    unfolding w' using resolve_hits_loop_actors [of k laser objs "([], w)"] by simp
  have hp': "hp (actors w' r) =
      hp (actors w r) - (if collides k w laser r then int (count_list objs (Some r)) else 0)" for r
    using A by simp
  have L: "lasers_fired (player w') =
     (if \<exists>r. Some r \<in> set objs \<and> collides k w laser r
      then group_remove laser (lasers_fired (player w)) else lasers_fired (player w))"
    unfolding w' using resolve_hits_loop_lasers [of k laser objs "([], w)"] by auto
  have B: "(\<exists>r. Some r \<in> set objs \<and> collides k w laser r) \<longrightarrow>
            laser \<notin> set (lasers_fired (player w'))"
    using L by (auto simp: set_group_remove)
  have C: "\<not> (\<exists>r. Some r \<in> set objs \<and> collides k w laser r) \<longrightarrow>
            lasers_fired (player w') = lasers_fired (player w)"
    using L by auto
  have D: "set kills = {r. Some r \<in> set objs \<and> collides k w laser r \<and> hp (actors w' r) \<le> 0}"
    unfolding k w' using resolve_hits_loop_kills_set [of k laser objs "([], w)"] by simp
  have E: "kills = filter (\<lambda>r. collides k w laser r \<and> hp (actors w' r) \<le> 0) (candidates objs)"
    if d: "distinct (candidates objs)"
  proof -
    have "kills = filter (\<lambda>r. collides k w laser r \<and> hp (actors w r) - 1 \<le> 0) (candidates objs)"
      unfolding k using resolve_hits_loop_kills_distinct [OF d, of k laser "([], w)"] by simp
    also have "\<dots> = filter (\<lambda>r. collides k w laser r \<and> hp (actors w' r) \<le> 0) (candidates objs)"
    proof (rule filter_cong [OF refl])
      fix r assume "r \<in> set (candidates objs)"
      then have "count_list (candidates objs) r = 1"
        using d by (simp add: count_list_distinct)
      then have "count_list objs (Some r) = 1" by (simp add: count_candidates)
      then show "(collides k w laser r \<and> hp (actors w r) - 1 \<le> 0) =
                 (collides k w laser r \<and> hp (actors w' r) \<le> 0)"
        by (auto simp: hp')
    qed
    finally show ?thesis .
  qed
  have F: "kills_of (trace w') = kills_of (trace w) @ kills"
    unfolding k w' using resolve_hits_loop_kills_trace [of k laser objs "([], w)"] by auto
  have G: "kills = [t] \<and> hp (actors w' t) = 0 \<and> kills_of (trace w') = kills_of (trace w) @ [t] \<and>
            laser \<notin> set (lasers_fired (player w'))"
    if "objs = [Some t]" "collides k w laser t" "hp (actors w t) = 1"
  proof -
    have "hp (actors w' t) = 0" using that by (simp add: hp')
    moreover have "kills = [t]" using E that by (simp add: hp')
    moreover have "laser \<notin> set (lasers_fired (player w'))" using B that by auto
    ultimately show ?thesis using F by simp
  qed
  have H: "kills = [] \<and> hp (actors w' t) = 1 \<and> kills_of (trace w') = kills_of (trace w) \<and>
            laser \<notin> set (lasers_fired (player w'))"
    if "objs = [Some t]" "collides k w laser t" "hp (actors w t) = 2"
  proof -
    have "hp (actors w' t) = 1" using that by (simp add: hp')
    moreover have "kills = []" using E that by (simp add: hp')
    moreover have "laser \<notin> set (lasers_fired (player w'))" using B that by auto
    ultimately show ?thesis using F by simp
  qed
  show ?thesis using A B C D E F G H by blast
qed

theorem resolve_hits_correct_witness:
  "\<exists>w. shoot demo_env demo_world = Inr w \<and> lasers_fired (player w) = [10] \<and>
     collides demo_env w 10 0 \<and> collides demo_env w 10 1 \<and> collides demo_env w 10 2 \<and>
     \<not> collides demo_env w 10 7 \<and>
     distinct (candidates [Some 1, None, Some 7, Some 2, Some 0]) \<and>
     (\<exists>kills w'. resolve_hits demo_env 10 [Some 1, None, Some 7, Some 2, Some 0] w = (kills, w') \<and>
        kills = [1, 0] \<and> kills_of (trace w') = [1, 0] \<and>
        hp (actors w' 1) = 0 \<and> hp (actors w' 2) = 1 \<and> hp (actors w' 0) = - 1 \<and>
        hp (actors w' 7) = 7 \<and> 10 \<notin> set (lasers_fired (player w'))) \<and>
     (\<exists>kills w'. resolve_hits demo_env 10 [Some 1] w = (kills, w') \<and>
        kills = [1] \<and> hp (actors w' 1) = 0 \<and> 10 \<notin> set (lasers_fired (player w'))) \<and>
     (\<exists>kills w'. resolve_hits demo_env 10 [Some 2] w = (kills, w') \<and>
        kills = [] \<and> hp (actors w' 2) = 1 \<and> 10 \<notin> set (lasers_fired (player w'))) \<and>
     (\<exists>kills w'. resolve_hits demo_env 10 [Some 7, None] w = (kills, w') \<and>
        kills = [] \<and> hp (actors w' 7) = 7 \<and> lasers_fired (player w') = [10])"
proof -
  obtain w where s: "shoot demo_env demo_world = Inr w"
    and lf: "lasers_fired (player w) = [10]"
    and tr: "trace w = [Play (Sound 0)]"
    and ps: "pos (actors w 10) = (0, 7)" "pos (actors w 0) = (0, 0)" "pos (actors w 1) = (0, 0)"
      "pos (actors w 2) = (0, 0)" "pos (actors w 7) = (1, 0)"
    and hps: "hp (actors w 0) = 0" "hp (actors w 1) = 1" "hp (actors w 2) = 2" "hp (actors w 7) = 7"
    by (simp add: shoot_def play_def group_add_def Let_def demo_world_def demo_player_def
          Player_init_def demo_env_def)
  have co: "collides demo_env w 10 0" "collides demo_env w 10 1" "collides demo_env w 10 2"
    "\<not> collides demo_env w 10 7"
    using ps by (simp_all add: collides_def shape_def demo_env_def)
  have d: "distinct (candidates [Some 1, None, Some 7, Some 2, Some 0])" by simp
  obtain ks1 w1 where r1: "resolve_hits demo_env 10 [Some 1, None, Some 7, Some 2, Some 0] w = (ks1, w1)"
    by (cases "resolve_hits demo_env 10 [Some 1, None, Some 7, Some 2, Some 0] w")
  note t1 = resolve_hits_correct [OF r1]
  note t1_hp = t1 [THEN conjunct1]
  note t1_in = t1 [THEN conjunct2, THEN conjunct1]
  note t1_ks = t1 [THEN conjunct2, THEN conjunct2, THEN conjunct2, THEN conjunct2, THEN conjunct1]
  note t1_tr = t1 [THEN conjunct2, THEN conjunct2, THEN conjunct2, THEN conjunct2, THEN conjunct2,
      THEN conjunct1]
  have h1: "hp (actors w1 1) = 0" "hp (actors w1 2) = 1" "hp (actors w1 0) = - 1" "hp (actors w1 7) = 7"
    using t1_hp [THEN spec, of 1] t1_hp [THEN spec, of 2] t1_hp [THEN spec, of 0]
      t1_hp [THEN spec, of 7] co hps by simp_all
  have k1: "ks1 = [1, 0]" using t1_ks d co h1 by simp
  have e1: "kills_of (trace w1) = [1, 0]" using t1_tr k1 tr by simp
  have "\<exists>r. Some r \<in> set [Some 1, None, Some 7, Some 2, Some 0] \<and> collides demo_env w 10 r"
    using co(2) by (intro exI [of _ 1]) simp
  then have l1: "10 \<notin> set (lasers_fired (player w1))" using t1_in by (rule rev_mp)
  obtain ks2 w2 where r2: "resolve_hits demo_env 10 [Some 1] w = (ks2, w2)"
    by (cases "resolve_hits demo_env 10 [Some 1] w")
  note t2 = resolve_hits_correct [OF r2, where t = 1, THEN conjunct2, THEN conjunct2, THEN conjunct2,
      THEN conjunct2, THEN conjunct2, THEN conjunct2, THEN conjunct1]
  have f2: "ks2 = [1] \<and> hp (actors w2 1) = 0 \<and> 10 \<notin> set (lasers_fired (player w2))"
    using t2 co(2) hps(2) by simp
  obtain ks3 w3 where r3: "resolve_hits demo_env 10 [Some 2] w = (ks3, w3)"
    by (cases "resolve_hits demo_env 10 [Some 2] w")
  note t3 = resolve_hits_correct [OF r3, where t = 2, THEN conjunct2, THEN conjunct2, THEN conjunct2,
      THEN conjunct2, THEN conjunct2, THEN conjunct2, THEN conjunct2]
  have f3: "ks3 = [] \<and> hp (actors w3 2) = 1 \<and> 10 \<notin> set (lasers_fired (player w3))"
    using t3 co(3) hps(3) by simp
  obtain ks4 w4 where r4: "resolve_hits demo_env 10 [Some 7, None] w = (ks4, w4)"
    by (cases "resolve_hits demo_env 10 [Some 7, None] w")
  note t4 = resolve_hits_correct [OF r4]
  note t4_hp = t4 [THEN conjunct1]
  note t4_out = t4 [THEN conjunct2, THEN conjunct2, THEN conjunct1]
  note t4_ks = t4 [THEN conjunct2, THEN conjunct2, THEN conjunct2, THEN conjunct2, THEN conjunct1]
  have h4: "hp (actors w4 7) = 7" using t4_hp [THEN spec, of 7] co(4) hps(4) by simp
  have k4: "ks4 = []" using t4_ks co(4) by simp
  have l4: "lasers_fired (player w4) = [10]" using t4_out co(4) lf by simp
  have p1: "\<exists>kills w'. resolve_hits demo_env 10 [Some 1, None, Some 7, Some 2, Some 0] w = (kills, w') \<and>
        kills = [1, 0] \<and> kills_of (trace w') = [1, 0] \<and>
        hp (actors w' 1) = 0 \<and> hp (actors w' 2) = 1 \<and> hp (actors w' 0) = - 1 \<and>
        hp (actors w' 7) = 7 \<and> 10 \<notin> set (lasers_fired (player w'))"
    using r1 k1 e1 h1 l1 by blast
  have p2: "\<exists>kills w'. resolve_hits demo_env 10 [Some 1] w = (kills, w') \<and>
        kills = [1] \<and> hp (actors w' 1) = 0 \<and> 10 \<notin> set (lasers_fired (player w'))"
    using r2 f2 by blast
  have p3: "\<exists>kills w'. resolve_hits demo_env 10 [Some 2] w = (kills, w') \<and>
        kills = [] \<and> hp (actors w' 2) = 1 \<and> 10 \<notin> set (lasers_fired (player w'))"
    using r3 f3 by blast
  have p4: "\<exists>kills w'. resolve_hits demo_env 10 [Some 7, None] w = (kills, w') \<and>
        kills = [] \<and> hp (actors w' 7) = 7 \<and> lasers_fired (player w') = [10]"
    using r4 k4 h4 l4 by blast
  show ?thesis
    using s lf co d p1 p2 p3 p4 by blast
qed

section \<open>Resolving missiles\<close>

lemma missile_hit_actors:
  "actors (snd (missile_hit l obj st)) =
     (actors (snd st))(obj := (actors (snd st) obj)\<lparr>hp := hp (actors (snd st) obj) - 3\<rparr>)"
  by (cases st) (simp add: missile_hit_def Let_def play_def kill_def)

lemma missile_hit_kills:
  "fst (missile_hit l obj st) =
     fst st @ (if hp (actors (snd st) obj) - 3 \<le> 0 then [obj] else [])"
  by (cases st) (simp add: missile_hit_def Let_def play_def kill_def)

lemma missile_hit_trace:
  "trace (snd (missile_hit l obj st)) =
     trace (snd st) @ Play (explosion_sfx (player (snd st))) #
       (if hp (actors (snd st) obj) - 3 \<le> 0 then [Kill obj] else [])"
  by (cases st) (simp add: missile_hit_def Let_def play_def kill_def)

lemma missile_hit_collides:
  "collides k (snd (missile_hit l obj st)) a b = collides k (snd st) a b"
  by (simp add: collides_def missile_hit_actors shape_def)

lemma resolve_missiles_loop_actors:
  "actors (snd (resolve_missiles_loop k l objs st)) r =
     (actors (snd st) r)
       \<lparr>hp := hp (actors (snd st) r) -
                (if collides k (snd st) l r then 3 * int (count_list objs (Some r)) else 0)\<rparr>"
proof (induction k l objs st rule: resolve_missiles_loop.induct)
  case (1 k missile st)
  then show ?case by simp
next
  case (2 k missile objs st)
  then show ?case by simp
next
  case (3 k missile obj objs st)
  show ?case
  proof (cases "collides k (snd st) missile obj")
    case True
    then have "resolve_missiles_loop k missile (Some obj # objs) st =
        resolve_missiles_loop k missile objs (missile_hit missile obj st)"
      by (simp add: collides_def)
    with 3(1) True show ?thesis
      by (auto simp: collides_def [symmetric] missile_hit_collides missile_hit_actors)
  next
    case False
    then have "resolve_missiles_loop k missile (Some obj # objs) st = resolve_missiles_loop k missile objs st"
      by (simp add: collides_def)
    with 3(2) False show ?thesis
      by (auto simp: collides_def [symmetric])
  qed
qed

lemma resolve_missiles_loop_collides:
  "collides k (snd (resolve_missiles_loop k l objs st)) a b = collides k (snd st) a b"
  by (simp add: collides_def resolve_missiles_loop_actors shape_def)

lemma resolve_missiles_loop_missiles:
  "missiles_fired (player (snd (resolve_missiles_loop k l objs st))) =
     (if \<exists>r. Some r \<in> set objs \<and> collides k (snd st) l r
      then group_remove l (missiles_fired (player (snd st)))
      else missiles_fired (player (snd st)))"
proof (induction k l objs st rule: resolve_missiles_loop.induct)
  case (1 k missile st)
  then show ?case by simp
next
  case (2 k missile objs st)
  then show ?case by simp
next
  case (3 k missile obj objs st)
  show ?case
  proof (cases "collides k (snd st) missile obj")
    case True
    then have "resolve_missiles_loop k missile (Some obj # objs) st =
        resolve_missiles_loop k missile objs (missile_hit missile obj st)"
      by (simp add: collides_def)
    with 3(1) True show ?thesis
      by (auto simp: collides_def [symmetric] missile_hit_collides missile_hit_frame group_remove_idem)
  next
    case False
    then have "resolve_missiles_loop k missile (Some obj # objs) st = resolve_missiles_loop k missile objs st"
      by (simp add: collides_def)
    with 3(2) False show ?thesis
      by (auto simp: collides_def [symmetric])
  qed
qed

lemma resolve_missiles_loop_kills_trace:
  "\<exists>ks. fst (resolve_missiles_loop k l objs st) = fst st @ ks \<and>
        kills_of (trace (snd (resolve_missiles_loop k l objs st))) = kills_of (trace (snd st)) @ ks"
proof (induction k l objs st rule: resolve_missiles_loop.induct)
  case (1 k missile st)
  then show ?case by simp
next
  case (2 k missile objs st)
  then show ?case by simp
next
  case (3 k missile obj objs st)
  show ?case
  proof (cases "collides k (snd st) missile obj")
    case True
    then have e: "resolve_missiles_loop k missile (Some obj # objs) st =
        resolve_missiles_loop k missile objs (missile_hit missile obj st)"
      by (simp add: collides_def)
    from 3(1) True obtain ks where
      "fst (resolve_missiles_loop k missile objs (missile_hit missile obj st)) = fst (missile_hit missile obj st) @ ks"
      "kills_of (trace (snd (resolve_missiles_loop k missile objs (missile_hit missile obj st)))) =
         kills_of (trace (snd (missile_hit missile obj st))) @ ks"
      by (auto simp: collides_def)
    then show ?thesis
      unfolding e by (simp add: missile_hit_kills missile_hit_trace kills_of_append)
  next
    case False
    then have "resolve_missiles_loop k missile (Some obj # objs) st = resolve_missiles_loop k missile objs st"
      by (simp add: collides_def)
    with 3(2) False show ?thesis
      by (auto simp: collides_def [symmetric])
  qed
qed

lemma resolve_missiles_loop_kills_distinct:
  "distinct (candidates objs) \<Longrightarrow>
   fst (resolve_missiles_loop k l objs st) =
     fst st @ filter (\<lambda>r. collides k (snd st) l r \<and> hp (actors (snd st) r) - 3 \<le> 0)
                (candidates objs)"
proof (induction k l objs st rule: resolve_missiles_loop.induct)
  case (1 k missile st)
  then show ?case by simp
next
  case (2 k missile objs st)
  then show ?case by simp
next
  case (3 k missile obj objs st)
  from 3(3) have d: "distinct (candidates objs)" and nin: "obj \<notin> set (candidates objs)" by simp_all
  show ?case
  proof (cases "collides k (snd st) missile obj")
    case True
    then have e: "resolve_missiles_loop k missile (Some obj # objs) st =
        resolve_missiles_loop k missile objs (missile_hit missile obj st)"
      by (simp add: collides_def)
    have c: "resolve_collision k (shape (actors (snd st) missile)) (shape (actors (snd st) obj))"
      using True by (simp add: collides_def)
    have same: "filter (\<lambda>r. collides k (snd (missile_hit missile obj st)) missile r \<and>
                     hp (actors (snd (missile_hit missile obj st)) r) - 3 \<le> 0) (candidates objs) =
          filter (\<lambda>r. collides k (snd st) missile r \<and> hp (actors (snd st) r) - 3 \<le> 0)
            (candidates objs)"
      using nin by (intro filter_cong) (auto simp: missile_hit_collides missile_hit_actors)
    show ?thesis
      unfolding e using 3(1) [OF c d] True same
      by (simp add: missile_hit_kills)
  next
    case False
    then have e: "resolve_missiles_loop k missile (Some obj # objs) st = resolve_missiles_loop k missile objs st"
      by (simp add: collides_def)
    have c: "\<not> resolve_collision k (shape (actors (snd st) missile)) (shape (actors (snd st) obj))"
      using False by (simp add: collides_def)
    show ?thesis
      unfolding e using 3(2) [OF c d] False by simp
  qed
qed

lemma resolve_missiles_loop_kills_set:
  "set (fst (resolve_missiles_loop k l objs st)) =
     set (fst st) \<union>
     {r. Some r \<in> set objs \<and> collides k (snd st) l r \<and>
         hp (actors (snd (resolve_missiles_loop k l objs st)) r) \<le> 0}"
proof (induction k l objs st rule: resolve_missiles_loop.induct)
  case (1 k missile st)
  then show ?case by simp
next
  case (2 k missile objs st)
  then show ?case by simp
next
  case (3 k missile obj objs st)
  show ?case
  proof (cases "collides k (snd st) missile obj")
    case True
    define st1 where "st1 = missile_hit missile obj st"
    define res where "res = resolve_missiles_loop k missile objs st1"
    have e: "resolve_missiles_loop k missile (Some obj # objs) st = res"
      using True by (simp add: collides_def res_def st1_def)
    have c: "resolve_collision k (shape (actors (snd st) missile)) (shape (actors (snd st) obj))"
      using True by (simp add: collides_def)
    have ih: "set (fst res) = set (fst st1) \<union>
        {r. Some r \<in> set objs \<and> collides k (snd st) missile r \<and> hp (actors (snd res) r) \<le> 0}"
      using 3(1) [OF c] by (simp add: res_def st1_def missile_hit_collides)
    have k1: "set (fst st1) = set (fst st) \<union> (if hp (actors (snd st) obj) - 3 \<le> 0 then {obj} else {})"
      by (simp add: st1_def missile_hit_kills)
    have hpobj: "hp (actors (snd res) obj) =
        hp (actors (snd st) obj) - 3 - 3 * int (count_list objs (Some obj))"
      using True
      by (simp add: res_def st1_def resolve_missiles_loop_actors missile_hit_collides missile_hit_actors)
    have in_objs: "Some obj \<in> set objs" if "0 < count_list objs (Some obj)"
      using that by (cases "Some obj \<in> set objs") (simp_all add: count_list_0_iff)
    define P where "P = (\<lambda>r. collides k (snd st) missile r \<and> hp (actors (snd res) r) \<le> 0)"
    have split: "{r. Some r \<in> set (Some obj # objs) \<and> P r} =
        (if P obj then {obj} else {}) \<union> {r. Some r \<in> set objs \<and> P r}"
      by auto
    have ih': "set (fst res) = set (fst st1) \<union> {r. Some r \<in> set objs \<and> P r}"
      using ih by (simp add: P_def)
    have goal: "set (fst res) = set (fst st) \<union> {r. Some r \<in> set (Some obj # objs) \<and> P r}"
    proof (cases "hp (actors (snd st) obj) - 3 \<le> 0")
      case dead: True
      have "hp (actors (snd res) obj) \<le> 0" using hpobj dead by simp
      then have "P obj" using True by (simp add: P_def)
      moreover have "set (fst st1) = set (fst st) \<union> {obj}" using k1 dead by simp
      ultimately show ?thesis unfolding split ih' by auto
    next
      case alive: False
      have s1: "set (fst st1) = set (fst st)" using k1 alive by simp
      show ?thesis
      proof (cases "P obj")
        case True
        then have "hp (actors (snd res) obj) \<le> 0" by (simp add: P_def)
        with hpobj alive have "0 < int (count_list objs (Some obj))" by linarith
        then have "Some obj \<in> set objs" using in_objs by simp
        then have "obj \<in> {r. Some r \<in> set objs \<and> P r}" using True by simp
        then show ?thesis unfolding split ih' s1 using True by auto
      next
        case False
        then show ?thesis unfolding split ih' s1 by simp
      qed
    qed
    show ?thesis unfolding e using goal by (simp add: P_def)
  next
    case False
    then have e: "resolve_missiles_loop k missile (Some obj # objs) st = resolve_missiles_loop k missile objs st"
      by (simp add: collides_def)
    have c: "\<not> resolve_collision k (shape (actors (snd st) missile)) (shape (actors (snd st) obj))"
      using False by (simp add: collides_def)
    show ?thesis
      unfolding e using 3(2) [OF c] False by auto
  qed
qed


lemma resolve_missiles_loop_sounds:
  "sounds_of (trace (snd (resolve_missiles_loop k l objs st))) =
     sounds_of (trace (snd st)) @
     replicate (length (filter (collides k (snd st) l) (candidates objs)))
       (explosion_sfx (player (snd st)))"
proof (induction k l objs st rule: resolve_missiles_loop.induct)
  case (1 k missile st)
  then show ?case by simp
next
  case (2 k missile objs st)
  then show ?case by simp
next
  case (3 k missile obj objs st)
  show ?case
  proof (cases "collides k (snd st) missile obj")
    case True
    then have e: "resolve_missiles_loop k missile (Some obj # objs) st =
        resolve_missiles_loop k missile objs (missile_hit missile obj st)"
      by (simp add: collides_def)
    have c: "resolve_collision k (shape (actors (snd st) missile)) (shape (actors (snd st) obj))"
      using True by (simp add: collides_def)
    have f: "collides k (snd (missile_hit missile obj st)) missile = collides k (snd st) missile"
      by (rule ext) (simp add: missile_hit_collides)
    have x: "explosion_sfx (player (snd (missile_hit missile obj st))) = explosion_sfx (player (snd st))"
      by (simp add: missile_hit_frame)
    show ?thesis
      unfolding e using 3(1) [OF c] True
      by (simp add: f x missile_hit_trace sounds_of_append replicate_append_same)
  next
    case False
    then have e: "resolve_missiles_loop k missile (Some obj # objs) st =
        resolve_missiles_loop k missile objs st"
      by (simp add: collides_def)
    have c: "\<not> resolve_collision k (shape (actors (snd st) missile)) (shape (actors (snd st) obj))"
      using False by (simp add: collides_def)
    show ?thesis
      unfolding e using 3(2) [OF c] False by simp
  qed
qed

text \<open>
  C3. \<open>resolve_missiles\<close>, for every missile, candidate list and world. Every entry of
  the list that is not \<open>None\<close> and collides with the missile takes exactly three hit points
  off its object and changes nothing else of it; the sounds played are the explosion sound,
  once for every colliding entry, and no other sound; if some entry collides the missile is no
  longer in \<open>missiles_fired\<close> afterwards, otherwise the group is unchanged; the returned list
  holds exactly the colliding candidates whose hit points are at most 0 afterwards, and the
  removal hook has been invoked on exactly these, in this order. A single colliding target with
  3 hit points ends at exactly 0, is killed, and the explosion sound is played once.
\<close>

theorem resolve_missiles_correct:
  assumes "resolve_missiles k missile objs w = (kills, w')"
  shows "(\<forall>r. actors w' r =
              (actors w r)\<lparr>hp := hp (actors w r) -
                 (if collides k w missile r then 3 * int (count_list objs (Some r)) else 0)\<rparr>) \<and>
         sounds_of (trace w') =
           sounds_of (trace w) @
           replicate (length (filter (collides k w missile) (candidates objs)))
             (explosion_sfx (player w)) \<and>
         ((\<exists>r. Some r \<in> set objs \<and> collides k w missile r) \<longrightarrow>
            missile \<notin> set (missiles_fired (player w'))) \<and>
         (\<not> (\<exists>r. Some r \<in> set objs \<and> collides k w missile r) \<longrightarrow>
            missiles_fired (player w') = missiles_fired (player w)) \<and>
         set kills = {r. Some r \<in> set objs \<and> collides k w missile r \<and> hp (actors w' r) \<le> 0} \<and>
         (distinct (candidates objs) \<longrightarrow>
            kills = filter (\<lambda>r. collides k w missile r \<and> hp (actors w' r) \<le> 0) (candidates objs)) \<and>
         kills_of (trace w') = kills_of (trace w) @ kills \<and>
         (objs = [Some t] \<and> collides k w missile t \<and> hp (actors w t) = 3 \<longrightarrow>
            kills = [t] \<and> hp (actors w' t) = 0 \<and>
            kills_of (trace w') = kills_of (trace w) @ [t] \<and>
            sounds_of (trace w') = sounds_of (trace w) @ [explosion_sfx (player w)] \<and>
            missile \<notin> set (missiles_fired (player w')))"
proof -
  have k: "kills = fst (resolve_missiles_loop k missile objs ([], w))"
    and w': "w' = snd (resolve_missiles_loop k missile objs ([], w))"
    using assms by (simp_all add: resolve_missiles_def)
  have A: "\<forall>r. actors w' r =
              (actors w r)\<lparr>hp := hp (actors w r) -
                 (if collides k w missile r then 3 * int (count_list objs (Some r)) else 0)\<rparr>"
    unfolding w' using resolve_missiles_loop_actors [of k missile objs "([], w)"] by simp
  have hp': "hp (actors w' r) =
      hp (actors w r) - (if collides k w missile r then 3 * int (count_list objs (Some r)) else 0)" for r
    using A by simp
  have S: "sounds_of (trace w') =
           sounds_of (trace w) @
           replicate (length (filter (collides k w missile) (candidates objs)))
             (explosion_sfx (player w))"
    unfolding w' using resolve_missiles_loop_sounds [of k missile objs "([], w)"] by simp
  have L: "missiles_fired (player w') =
     (if \<exists>r. Some r \<in> set objs \<and> collides k w missile r
      then group_remove missile (missiles_fired (player w)) else missiles_fired (player w))"
    unfolding w' using resolve_missiles_loop_missiles [of k missile objs "([], w)"] by auto
  have B: "(\<exists>r. Some r \<in> set objs \<and> collides k w missile r) \<longrightarrow>
            missile \<notin> set (missiles_fired (player w'))"
    using L by (auto simp: set_group_remove)
  have C: "\<not> (\<exists>r. Some r \<in> set objs \<and> collides k w missile r) \<longrightarrow>
            missiles_fired (player w') = missiles_fired (player w)"
    using L by auto
  have D: "set kills = {r. Some r \<in> set objs \<and> collides k w missile r \<and> hp (actors w' r) \<le> 0}"
    unfolding k w' using resolve_missiles_loop_kills_set [of k missile objs "([], w)"] by simp
  have E: "kills = filter (\<lambda>r. collides k w missile r \<and> hp (actors w' r) \<le> 0) (candidates objs)"
    if d: "distinct (candidates objs)"
  proof -
    have "kills = filter (\<lambda>r. collides k w missile r \<and> hp (actors w r) - 3 \<le> 0) (candidates objs)"
      unfolding k using resolve_missiles_loop_kills_distinct [OF d, of k missile "([], w)"] by simp
    also have "\<dots> = filter (\<lambda>r. collides k w missile r \<and> hp (actors w' r) \<le> 0) (candidates objs)"
    proof (rule filter_cong [OF refl])
      fix r assume "r \<in> set (candidates objs)"
      then have "count_list (candidates objs) r = 1"
        using d by (simp add: count_list_distinct)
      then have "count_list objs (Some r) = 1" by (simp add: count_candidates)
      then show "(collides k w missile r \<and> hp (actors w r) - 3 \<le> 0) =
                 (collides k w missile r \<and> hp (actors w' r) \<le> 0)"
        by (auto simp: hp')
    qed
    finally show ?thesis .
  qed
  have F: "kills_of (trace w') = kills_of (trace w) @ kills"
    unfolding k w' using resolve_missiles_loop_kills_trace [of k missile objs "([], w)"] by auto
  have G: "kills = [t] \<and> hp (actors w' t) = 0 \<and>
            kills_of (trace w') = kills_of (trace w) @ [t] \<and>
            sounds_of (trace w') = sounds_of (trace w) @ [explosion_sfx (player w)] \<and>
            missile \<notin> set (missiles_fired (player w'))"
    if "objs = [Some t]" "collides k w missile t" "hp (actors w t) = 3"
  proof -
    have "hp (actors w' t) = 0" using that by (simp add: hp')
    moreover have "kills = [t]" using E that by (simp add: hp')
    moreover have "missile \<notin> set (missiles_fired (player w'))" using B that by auto
    moreover have "sounds_of (trace w') = sounds_of (trace w) @ [explosion_sfx (player w)]"
      using S that by simp
    ultimately show ?thesis using F by simp
  qed
  show ?thesis using A S B C D E F G by blast
qed

theorem resolve_missiles_correct_witness:
  "\<exists>w. fire_missle demo_env [Some 3] demo_world = Inr w \<and> missiles_fired (player w) = [10] \<and>
     collides demo_env w 10 3 \<and> collides demo_env w 10 4 \<and> \<not> collides demo_env w 10 7 \<and>
     distinct (candidates [Some 4, None, Some 7, Some 3]) \<and>
     (\<exists>kills w'. resolve_missiles demo_env 10 [Some 4, None, Some 7, Some 3] w = (kills, w') \<and>
        kills = [3] \<and> kills_of (trace w') = [3] \<and>
        sounds_of (trace w') = [Sound 3, Sound 2, Sound 2] \<and>
        hp (actors w' 3) = 0 \<and> hp (actors w' 4) = 1 \<and> hp (actors w' 7) = 7 \<and>
        10 \<notin> set (missiles_fired (player w'))) \<and>
     (\<exists>kills w'. resolve_missiles demo_env 10 [Some 3] w = (kills, w') \<and>
        kills = [3] \<and> hp (actors w' 3) = 0 \<and>
        sounds_of (trace w') = [Sound 3, Sound 2] \<and> kills_of (trace w') = [3] \<and>
        10 \<notin> set (missiles_fired (player w'))) \<and>
     (\<exists>kills w'. resolve_missiles demo_env 10 [Some 7, None] w = (kills, w') \<and>
        kills = [] \<and> hp (actors w' 7) = 7 \<and> sounds_of (trace w') = [Sound 3] \<and>
        missiles_fired (player w') = [10])"
proof -
  obtain w where s: "fire_missle demo_env [Some 3] demo_world = Inr w"
    and lf: "missiles_fired (player w) = [10]"
    and tr: "trace w = [Play (Sound 3)]"
    and ex: "explosion_sfx (player w) = Sound 2"
    and ps: "pos (actors w 10) = (0, 7)" "pos (actors w 3) = (0, 0)" "pos (actors w 4) = (0, 0)"
      "pos (actors w 7) = (1, 0)"
    and hps: "hp (actors w 3) = 3" "hp (actors w 4) = 4" "hp (actors w 7) = 7"
    by (simp add: fire_missle_def play_def group_add_def Let_def demo_world_def demo_player_def
          Player_init_def demo_env_def)
  have co: "collides demo_env w 10 3" "collides demo_env w 10 4" "\<not> collides demo_env w 10 7"
    using ps by (simp_all add: collides_def shape_def demo_env_def)
  have d: "distinct (candidates [Some 4, None, Some 7, Some 3])" by simp
  obtain ks1 w1 where r1: "resolve_missiles demo_env 10 [Some 4, None, Some 7, Some 3] w = (ks1, w1)"
    by (cases "resolve_missiles demo_env 10 [Some 4, None, Some 7, Some 3] w")
  note t1 = resolve_missiles_correct [OF r1]
  note t1_hp = t1 [THEN conjunct1]
  note t1_so = t1 [THEN conjunct2, THEN conjunct1]
  note t1_in = t1 [THEN conjunct2, THEN conjunct2, THEN conjunct1]
  note t1_ks = t1 [THEN conjunct2, THEN conjunct2, THEN conjunct2, THEN conjunct2, THEN conjunct2,
      THEN conjunct1]
  note t1_tr = t1 [THEN conjunct2, THEN conjunct2, THEN conjunct2, THEN conjunct2, THEN conjunct2,
      THEN conjunct2, THEN conjunct1]
  have h1: "hp (actors w1 3) = 0" "hp (actors w1 4) = 1" "hp (actors w1 7) = 7"
    using t1_hp [THEN spec, of 3] t1_hp [THEN spec, of 4] t1_hp [THEN spec, of 7] co hps
    by simp_all
  have k1: "ks1 = [3]" using t1_ks d co h1 by simp
  have e1: "kills_of (trace w1) = [3]" using t1_tr k1 tr by simp
  have s1: "sounds_of (trace w1) = [Sound 3, Sound 2, Sound 2]" using t1_so co tr ex by simp
  have "\<exists>r. Some r \<in> set [Some 4, None, Some 7, Some 3] \<and> collides demo_env w 10 r"
    using co(2) by (intro exI [of _ 4]) simp
  then have l1: "10 \<notin> set (missiles_fired (player w1))" using t1_in by (rule rev_mp)
  obtain ks2 w2 where r2: "resolve_missiles demo_env 10 [Some 3] w = (ks2, w2)"
    by (cases "resolve_missiles demo_env 10 [Some 3] w")
  note t2 = resolve_missiles_correct [OF r2, where t = 3, THEN conjunct2, THEN conjunct2,
      THEN conjunct2, THEN conjunct2, THEN conjunct2, THEN conjunct2, THEN conjunct2]
  have f2: "ks2 = [3] \<and> hp (actors w2 3) = 0 \<and>
      sounds_of (trace w2) = [Sound 3, Sound 2] \<and> kills_of (trace w2) = [3] \<and>
      10 \<notin> set (missiles_fired (player w2))"
    using t2 co(1) hps(1) tr ex by simp
  obtain ks4 w4 where r4: "resolve_missiles demo_env 10 [Some 7, None] w = (ks4, w4)"
    by (cases "resolve_missiles demo_env 10 [Some 7, None] w")
  note t4 = resolve_missiles_correct [OF r4]
  note t4_hp = t4 [THEN conjunct1]
  note t4_so = t4 [THEN conjunct2, THEN conjunct1]
  note t4_out = t4 [THEN conjunct2, THEN conjunct2, THEN conjunct2, THEN conjunct1]
  note t4_ks = t4 [THEN conjunct2, THEN conjunct2, THEN conjunct2, THEN conjunct2, THEN conjunct2,
      THEN conjunct1]
  have h4: "hp (actors w4 7) = 7" using t4_hp [THEN spec, of 7] co(3) hps(3) by simp
  have k4: "ks4 = []" using t4_ks co(3) by simp
  have s4: "sounds_of (trace w4) = [Sound 3]" using t4_so co(3) tr by simp
  have l4: "missiles_fired (player w4) = [10]" using t4_out co(3) lf by simp
  have p1: "\<exists>kills w'. resolve_missiles demo_env 10 [Some 4, None, Some 7, Some 3] w = (kills, w') \<and>
        kills = [3] \<and> kills_of (trace w') = [3] \<and>
        sounds_of (trace w') = [Sound 3, Sound 2, Sound 2] \<and>
        hp (actors w' 3) = 0 \<and> hp (actors w' 4) = 1 \<and> hp (actors w' 7) = 7 \<and>
        10 \<notin> set (missiles_fired (player w'))"
    using r1 k1 e1 s1 h1 l1 by blast
  have p2: "\<exists>kills w'. resolve_missiles demo_env 10 [Some 3] w = (kills, w') \<and>
        kills = [3] \<and> hp (actors w' 3) = 0 \<and>
        sounds_of (trace w') = [Sound 3, Sound 2] \<and> kills_of (trace w') = [3] \<and>
        10 \<notin> set (missiles_fired (player w'))"
    using r2 f2 by blast
  have p4: "\<exists>kills w'. resolve_missiles demo_env 10 [Some 7, None] w = (kills, w') \<and>
        kills = [] \<and> hp (actors w' 7) = 7 \<and> sounds_of (trace w') = [Sound 3] \<and>
        missiles_fired (player w') = [10]"
    using r4 k4 h4 s4 l4 by blast
  show ?thesis
    using s lf co d p1 p2 p4 by blast
qed

end
